theory Spec2Isabelle
  imports Complex_Main "HOL-Library.AList"
begin

chapter \<open>The schema-transformation and domain-resolution pipeline of BD-CARG-2shape\<close>

text \<open>
  A shallow embedding of the functions of \<open>BDgpkg2shape.py\<close> (and of their counterparts in
  \<open>script/BDgpkg2shapePRO.py\<close> and \<open>openlibs/gpkg_pipeline.py\<close>) that resolve domain codes,
  normalise the \<open>Sommerso\<close> flag, inject the sheet id, clean the output schema and merge
  the two geology line files. The vector store (\<open>arcpy\<close>) is modelled by the effect of
  its calls on a feature class: a list of fields and a list of rows. The first part of
  the theory holds the model, the second its verification.
\<close>

section \<open>Python values and the vector store\<close>

text \<open>
  A cursor row of the vector store holds Python values: \<open>None\<close>, an integer, a float or a
  string. A finite float is the rational number it denotes; the two infinities and NaN are
  values of their own, because \<open>int()\<close> raises on them.
\<close>

datatype pyfloat = Fin rat | PosInf | NegInf | NaN

datatype pyval = PNone | PInt int | PFloat pyfloat | PStr string

datatype pyerr = ValueError | OverflowError | RuntimeError | ExecuteError

text \<open>
  A field as \<open>arcpy.ListFields\<close> reports it (name, type, length); a feature class is its
  field list and its rows, a row being the association list from field names to values.
\<close>

record field =
  f_name :: string
  f_type :: string
  f_length :: nat

type_synonym row = "(string \<times> pyval) list"

record fc =
  fc_fields :: "field list"
  fc_rows :: "row list"

definition field_names :: "fc \<Rightarrow> string list" where
  "field_names shp = map f_name (fc_fields shp)"

text \<open>\<open>[f.name for f in arcpy.ListFields(shapefile) if f.type not in ['OID', 'Geometry']]\<close>\<close>

definition attr_field_names :: "fc \<Rightarrow> string list" where
  "attr_field_names shp =
     map f_name (filter (\<lambda>f. f_type f \<notin> set [''OID'', ''Geometry'']) (fc_fields shp))"

text \<open>
  \<open>arcpy.DeleteField_management(shapefile, names)\<close>: the store removes the named fields
  from the schema and from every row. The store may refuse a field (a required field, a
  locked file); \<open>deletable\<close> says which fields it lets go, and a call naming a refused field
  raises and changes nothing. (Were such a call to delete some of its fields before it
  raises, the per-field calls that follow it in the script would reach the same file.)
\<close>

definition drop_fields :: "string list \<Rightarrow> fc \<Rightarrow> fc" where
  "drop_fields names shp =
     shp\<lparr>fc_fields := filter (\<lambda>f. f_name f \<notin> set names) (fc_fields shp),
         fc_rows := map (filter (\<lambda>kv. fst kv \<notin> set names)) (fc_rows shp)\<rparr>"

definition DeleteField_management :: "(string \<Rightarrow> bool) \<Rightarrow> fc \<Rightarrow> string list \<Rightarrow> pyerr + fc" where
  "DeleteField_management deletable shp names =
     (if list_all deletable names then Inr (drop_fields names shp) else Inl ExecuteError)"

section \<open>Python builtins\<close>

text \<open>
  \<open>str.strip()\<close> removes leading and trailing whitespace; \<open>str.upper()\<close> maps the ASCII
  letters; \<open>sub in s\<close> is the substring test. \<open>BDgpkg2shape.py\<close> runs under Python 2,
  where the whitespace of a byte string is the six characters below.
\<close>

definition is_space :: "char \<Rightarrow> bool" where
  "is_space c = (c \<in> set [CHR '' '', CHR 0x09, CHR 0x0A, CHR 0x0B, CHR 0x0C, CHR 0x0D])"

definition py_strip :: "string \<Rightarrow> string" where
  "py_strip s = rev (dropWhile is_space (rev (dropWhile is_space s)))"

definition upper_char :: "char \<Rightarrow> char" where
  "upper_char c =
     (case map_of (zip ''abcdefghijklmnopqrstuvwxyz'' ''ABCDEFGHIJKLMNOPQRSTUVWXYZ'') c of
        Some u \<Rightarrow> u
      | None \<Rightarrow> c)"

definition py_upper :: "string \<Rightarrow> string" where
  "py_upper s = map upper_char s"

fun starts_with :: "string \<Rightarrow> string \<Rightarrow> bool" where
  "starts_with [] s = True"
| "starts_with (p # ps) [] = False"
| "starts_with (p # ps) (c # cs) = (p = c \<and> starts_with ps cs)"

fun py_in_str :: "string \<Rightarrow> string \<Rightarrow> bool" where
  "py_in_str sub [] = (sub = [])"
| "py_in_str sub (c # cs) = (starts_with sub (c # cs) \<or> py_in_str sub cs)"

definition is_digit :: "char \<Rightarrow> bool" where
  "is_digit c = (c \<in> set ''0123456789'')"

text \<open>\<open>s.replace('.', '').replace('-', '').isdigit()\<close>\<close>

definition numeric_looking :: "string \<Rightarrow> bool" where
  "numeric_looking s =
     (let t = filter (\<lambda>c. c \<noteq> CHR ''.'' \<and> c \<noteq> CHR ''-'') s
      in t \<noteq> [] \<and> list_all is_digit t)"

text \<open>
  \<open>BDgpkg2shapePRO.py\<close> runs under Python 3, where a string is a sequence of code points;
  a character of the model stands for a code point below 256. There \<open>str.strip()\<close> also
  removes the separators U+001C to U+001F, the next-line control U+0085 and the no-break
  space U+00A0, and \<open>str.isdigit()\<close> also accepts the superscript digits U+00B2, U+00B3
  and U+00B9. Upper-casing is applied to field names and field-name patterns only; the
  model takes them to be ASCII, as they are in a dBASE table, where the two versions
  upper-case alike.
\<close>

definition is_space3 :: "char \<Rightarrow> bool" where
  "is_space3 c =
     (is_space c \<or> c \<in> set [CHR 0x1C, CHR 0x1D, CHR 0x1E, CHR 0x1F, CHR 0x85, CHR 0xA0])"

definition py3_strip :: "string \<Rightarrow> string" where
  "py3_strip s = rev (dropWhile is_space3 (rev (dropWhile is_space3 s)))"

definition is_digit3 :: "char \<Rightarrow> bool" where
  "is_digit3 c = (is_digit c \<or> c \<in> set [CHR 0xB2, CHR 0xB3, CHR 0xB9])"

definition numeric_looking3 :: "string \<Rightarrow> bool" where
  "numeric_looking3 s =
     (let t = filter (\<lambda>c. c \<noteq> CHR ''.'' \<and> c \<noteq> CHR ''-'') s
      in t \<noteq> [] \<and> list_all is_digit3 t)"

text \<open>\<open>str()\<close> of an integer: its decimal digits, with a minus sign when negative.\<close>

definition digit_char :: "nat \<Rightarrow> char" where
  "digit_char d = ''0123456789'' ! (d mod 10)"

fun nat_str :: "nat \<Rightarrow> string" where
  "nat_str n = (if n < 10 then [digit_char n] else nat_str (n div 10) @ [digit_char (n mod 10)])"

declare nat_str.simps [simp del]

definition py_int_str :: "int \<Rightarrow> string" where
  "py_int_str i = (if i < 0 then CHR ''-'' # nat_str (nat (- i)) else nat_str (nat i))"

text \<open>
  Formatting and parsing of floats are the interpreter's: the model takes them as the
  two functions of \<open>pylib\<close>. \<open>float_of_str s = None\<close> stands for the \<open>ValueError\<close> of
  \<open>float(s)\<close>. Every theorem below that mentions a \<open>pylib\<close> holds for all of them.
\<close>

record pylib =
  float_of_str :: "string \<Rightarrow> pyfloat option"
  str_of_float :: "pyfloat \<Rightarrow> string"

definition py_str :: "pylib \<Rightarrow> pyval \<Rightarrow> string" where
  "py_str L v =
     (case v of
        PNone \<Rightarrow> ''None''
      | PInt i \<Rightarrow> py_int_str i
      | PFloat f \<Rightarrow> str_of_float L f
      | PStr s \<Rightarrow> s)"

text \<open>
  \<open>int(x)\<close> of a float truncates towards zero; it raises \<open>OverflowError\<close> on an infinity
  and \<open>ValueError\<close> on NaN.
\<close>

definition py_int_of_float :: "pyfloat \<Rightarrow> pyerr + int" where
  "py_int_of_float f =
     (case f of
        Fin r \<Rightarrow> Inr (if 0 \<le> r then \<lfloor>r\<rfloor> else \<lceil>r\<rceil>)
      | PosInf \<Rightarrow> Inl OverflowError
      | NegInf \<Rightarrow> Inl OverflowError
      | NaN \<Rightarrow> Inl ValueError)"

text \<open>
  Dictionary keys. Python compares and hashes an integer and a float by their numeric
  value, so \<open>1\<close> and \<open>1.0\<close> are one key; a string never equals a number. A NaN equals
  nothing, itself included: a lookup with a NaN misses.
\<close>

datatype pykey = KNone | KNum rat | KPosInf | KNegInf | KNaN | KStr string

definition key_of :: "pyval \<Rightarrow> pykey" where
  "key_of v =
     (case v of
        PNone \<Rightarrow> KNone
      | PInt i \<Rightarrow> KNum (of_int i)
      | PFloat (Fin r) \<Rightarrow> KNum r
      | PFloat PosInf \<Rightarrow> KPosInf
      | PFloat NegInf \<Rightarrow> KNegInf
      | PFloat NaN \<Rightarrow> KNaN
      | PStr s \<Rightarrow> KStr s)"

type_synonym code_map = "(pykey \<times> string) list"

text \<open>\<open>k in d\<close>, \<open>d[k]\<close> after that test, and \<open>d[k] = v\<close>.\<close>

definition dict_get :: "code_map \<Rightarrow> pyval \<Rightarrow> string option" where
  "dict_get d v = (if key_of v = KNaN then None else map_of d (key_of v))"

definition dict_set :: "code_map \<Rightarrow> pykey \<Rightarrow> string \<Rightarrow> code_map" where
  "dict_set d k v = AList.update k v d"

text \<open>\<open>x in [a, b, c]\<close> on a list compares with \<open>==\<close>.\<close>

definition py_eq :: "pyval \<Rightarrow> pyval \<Rightarrow> bool" where
  "py_eq a b = (key_of a \<noteq> KNaN \<and> key_of a = key_of b)"

definition py_in_list :: "pyval \<Rightarrow> pyval list \<Rightarrow> bool" where
  "py_in_list x xs = list_ex (py_eq x) xs"

text \<open>
  A concrete \<open>pylib\<close> for evaluating examples: it parses plain decimal literals
  (\<open>[+-]digits[.digits]\<close>, \<open>inf\<close>, \<open>nan\<close>) and prints a float with its integer part, a
  point and its decimal digits, as Python does for floats with short expansions.
\<close>

definition digits_val :: "string \<Rightarrow> nat" where
  "digits_val ds = foldl (\<lambda>a c. 10 * a + (of_char c - 48)) 0 ds"

definition unsigned_float :: "string \<Rightarrow> pyfloat option" where
  "unsigned_float u =
     (if u = ''inf'' \<or> u = ''infinity'' then Some PosInf
      else if u = ''nan'' then Some NaN
      else
        (let ip = takeWhile is_digit u; rest = dropWhile is_digit u in
         case rest of
           [] \<Rightarrow> if ip = [] then None else Some (Fin (of_nat (digits_val ip)))
         | c # fp \<Rightarrow>
             if c = CHR ''.'' \<and> list_all is_digit fp \<and> (ip \<noteq> [] \<or> fp \<noteq> [])
             then Some (Fin (of_nat (digits_val ip) + of_nat (digits_val fp) / 10 ^ length fp))
             else None))"

definition negate :: "pyfloat \<Rightarrow> pyfloat" where
  "negate f = (case f of Fin r \<Rightarrow> Fin (- r) | PosInf \<Rightarrow> NegInf | NegInf \<Rightarrow> PosInf | NaN \<Rightarrow> NaN)"

definition dec_float :: "string \<Rightarrow> pyfloat option" where
  "dec_float s =
     (case py_strip s of
        [] \<Rightarrow> None
      | c # u \<Rightarrow>
          if c = CHR ''-'' then map_option negate (unsigned_float u)
          else if c = CHR ''+'' then unsigned_float u
          else unsigned_float (c # u))"

fun frac_digits :: "nat \<Rightarrow> rat \<Rightarrow> string" where
  "frac_digits 0 r = []"
| "frac_digits (Suc n) r =
     (if r = 0 then []
      else digit_char (nat \<lfloor>r * 10\<rfloor>) # frac_digits n (r * 10 - of_int \<lfloor>r * 10\<rfloor>))"

definition dec_float_str :: "pyfloat \<Rightarrow> string" where
  "dec_float_str f =
     (case f of
        Fin r \<Rightarrow>
          (if r < 0 then ''-'' else '''') @ nat_str (nat \<lfloor>\<bar>r\<bar>\<rfloor>) @ ''.'' @
          (if \<bar>r\<bar> = of_int \<lfloor>\<bar>r\<bar>\<rfloor> then ''0''
           else frac_digits 17 (\<bar>r\<bar> - of_int \<lfloor>\<bar>r\<bar>\<rfloor>))
      | PosInf \<Rightarrow> ''inf''
      | NegInf \<Rightarrow> ''-inf''
      | NaN \<Rightarrow> ''nan'')"

definition dec_lib :: pylib where
  "dec_lib = \<lparr>float_of_str = dec_float, str_of_float = dec_float_str\<rparr>"

section \<open>Fields and cursors of the vector store\<close>

text \<open>
  The store resolves a field name without regard to case. A row holds a value for each
  field; a field with no entry in the row reads as NULL (\<open>None\<close>).
\<close>

definition resolve_field :: "fc \<Rightarrow> string \<Rightarrow> string option" where
  "resolve_field shp name = find (\<lambda>n. py_upper n = py_upper name) (field_names shp)"

definition row_get :: "row \<Rightarrow> string \<Rightarrow> pyval" where
  "row_get r n = (case map_of r n of Some v \<Rightarrow> v | None \<Rightarrow> PNone)"

definition row_set :: "row \<Rightarrow> string \<Rightarrow> pyval \<Rightarrow> row" where
  "row_set r n v = AList.update n v r"

text \<open>
  \<open>arcpy.AddField_management(shapefile, name, "TEXT", field_length=n)\<close>: a new text field,
  empty in every row (a dBASE table has no NULL); the store raises when a field of that
  name, in any case, exists already.
\<close>

definition AddField_management :: "fc \<Rightarrow> string \<Rightarrow> nat \<Rightarrow> pyerr + fc" where
  "AddField_management shp name n =
     (if py_upper name \<in> set (map py_upper (field_names shp)) then Inl ExecuteError
      else Inr (shp\<lparr>fc_fields := fc_fields shp @ [\<lparr>f_name = name, f_type = ''String'', f_length = n\<rparr>],
                    fc_rows := map (\<lambda>r. r @ [(name, PStr '''')]) (fc_rows shp)\<rparr>))"

text \<open>\<open>{f.name.upper(): f.name for f in arcpy.ListFields(shapefile)}\<close>\<close>

definition existing_fields :: "fc \<Rightarrow> (string \<times> string) list" where
  "existing_fields shp = foldl (\<lambda>d n. AList.update (py_upper n) n d) [] (field_names shp)"

text \<open>
  The loop of an \<open>UpdateCursor\<close> over the two fields \<open>[src, tgt]\<close>: each row is read, the
  value for \<open>tgt\<close> is computed from the value of \<open>src\<close>, and \<open>updateRow\<close> writes both back.
  An exception raised while a row is computed leaves that row and all later rows as
  they were and ends the loop.
\<close>

fun update_rows ::
  "(pyval \<Rightarrow> pyerr + string) \<Rightarrow> string \<Rightarrow> string \<Rightarrow> row list \<Rightarrow> row list \<times> pyerr option" where
  "update_rows f src tgt [] = ([], None)"
| "update_rows f src tgt (r # rs) =
     (case f (row_get r src) of
        Inl e \<Rightarrow> (r # rs, Some e)
      | Inr v \<Rightarrow>
          (case update_rows f src tgt rs of
             (rs', e) \<Rightarrow> (row_set (row_set r src (row_get r src)) tgt (PStr v) # rs', e)))"

text \<open>
  Opening the cursor raises a \<open>RuntimeError\<close> when one of its two fields does not exist.
\<close>

definition UpdateCursor ::
  "(pyval \<Rightarrow> pyerr + string) \<Rightarrow> fc \<Rightarrow> string \<Rightarrow> string \<Rightarrow> fc \<times> pyerr option" where
  "UpdateCursor f shp source_field field_name =
     (case (resolve_field shp source_field, resolve_field shp field_name) of
        (Some src, Some tgt) \<Rightarrow>
          (case update_rows f src tgt (fc_rows shp) of
             (rows', e) \<Rightarrow> (shp\<lparr>fc_rows := rows'\<rparr>, e))
      | _ \<Rightarrow> (shp, Some RuntimeError))"

text \<open>Of the log, the warnings and the errors are modelled; progress messages are not.\<close>

datatype log_entry = Warning string | Error string

section \<open>SchemaStandardizer: \<open>_cleanup_output_fields\<close>\<close>

definition system_fields :: "string list" where
  "system_fields = [''FID'', ''Shape'']"

definition priority_fields :: "string list" where
  "priority_fields =
     [''Foglio'', ''Tipo_g_txt'', ''Tipo_G_txt'', ''Tipol_txt'', ''Fase_txt'',
      ''Tipo_geo'', ''Tipologia'', ''Fase'', ''Label'', ''Num_Oss'', ''Pun_Gmo'',
      ''Lin_Gmo'', ''Pol_Gmo'', ''Num_Ris'']"

text \<open>
  The keep set: the theme's \<open>keep_fields\<close>, the system fields, and \<open>Foglio\<close> when a field
  of that name exists. The source builds a Python set; only membership is ever asked,
  so a list stands for it.
\<close>

definition fields_to_keep :: "string list \<Rightarrow> fc \<Rightarrow> string list" where
  "fields_to_keep keep_fields shp =
     keep_fields @ system_fields @
     (if ''Foglio'' \<in> set (field_names shp) then [''Foglio''] else [])"

text \<open>\<open>fields_to_delete = [f for f in existing_fields if f not in fields_to_keep]\<close>\<close>

definition initial_fields_to_delete :: "string list \<Rightarrow> fc \<Rightarrow> string list" where
  "initial_fields_to_delete keep_fields shp =
     filter (\<lambda>f. f \<notin> set (fields_to_keep keep_fields shp)) (attr_field_names shp)"

definition remaining_data_fields :: "string list \<Rightarrow> fc \<Rightarrow> string list" where
  "remaining_data_fields keep_fields shp =
     filter (\<lambda>f. f \<notin> set (initial_fields_to_delete keep_fields shp) \<and> f \<notin> set system_fields)
       (attr_field_names shp)"

text \<open>
  The rescue: the first entry of the priority list found in the deletion list is taken
  out of it; when there is none, the first field of the deletion list is.
\<close>

definition rescued_field :: "string list \<Rightarrow> string option" where
  "rescued_field del =
     (case find (\<lambda>p. p \<in> set del) priority_fields of
        Some p \<Rightarrow> Some p
      | None \<Rightarrow> (case del of [] \<Rightarrow> None | keep_field # _ \<Rightarrow> Some keep_field))"

definition rescue :: "string list \<Rightarrow> string list" where
  "rescue del = (case rescued_field del of None \<Rightarrow> del | Some r \<Rightarrow> remove1 r del)"

definition fields_to_delete :: "string list \<Rightarrow> fc \<Rightarrow> string list" where
  "fields_to_delete keep_fields shp =
     (let del = initial_fields_to_delete keep_fields shp in
      if length (remaining_data_fields keep_fields shp) = 0 then rescue del else del)"

text \<open>
  The deletion itself: one call for the whole list and, when that raises, one call per
  field, each in its own \<open>try\<close>.
\<close>

definition delete_individually :: "(string \<Rightarrow> bool) \<Rightarrow> string list \<Rightarrow> fc \<Rightarrow> fc" where
  "delete_individually deletable names shp =
     foldl (\<lambda>acc field_name.
              case DeleteField_management deletable acc [field_name] of
                Inr acc' \<Rightarrow> acc'
              | Inl _ \<Rightarrow> acc) shp names"

definition remove_fields :: "(string \<Rightarrow> bool) \<Rightarrow> string list \<Rightarrow> fc \<Rightarrow> fc" where
  "remove_fields deletable del shp =
     (if del \<noteq> [] then
        (case DeleteField_management deletable shp del of
           Inr shp' \<Rightarrow> shp'
         | Inl _ \<Rightarrow> delete_individually deletable del shp)
      else shp)"

text \<open>
  \<open>_cleanup_output_fields\<close> returns the file as it leaves it and the exception it raises,
  if any: the \<open>RuntimeError\<close> of the final check comes after the deletions are done.
\<close>

definition cleanup_output_fields ::
  "(string \<Rightarrow> bool) \<Rightarrow> string list \<Rightarrow> fc \<Rightarrow> fc \<times> pyerr option" where
  "cleanup_output_fields deletable keep_fields shp =
     (let shp' = remove_fields deletable (fields_to_delete keep_fields shp) shp;
          final_fields = attr_field_names shp'
      in if length final_fields = 0 then (shp', Some RuntimeError) else (shp', None))"

text \<open>The file of Scenario D: the system fields, \<open>Foglio\<close> and \<open>TempX\<close>.\<close>

definition scenario_d_file :: fc where
  "scenario_d_file =
     \<lparr>fc_fields =
        [\<lparr>f_name = ''FID'', f_type = ''OID'', f_length = 4\<rparr>,
         \<lparr>f_name = ''Shape'', f_type = ''Geometry'', f_length = 0\<rparr>,
         \<lparr>f_name = ''Foglio'', f_type = ''String'', f_length = 50\<rparr>,
         \<lparr>f_name = ''TempX'', f_type = ''String'', f_length = 20\<rparr>],
      fc_rows =
        [[(''FID'', PInt 0), (''Shape'', PNone), (''Foglio'', PStr ''348''),
          (''TempX'', PStr ''t'')]]\<rparr>"

text \<open>A store that lets every field go, and a file with no \<open>Foglio\<close> and no kept field.\<close>

definition all_deletable :: "string \<Rightarrow> bool" where
  "all_deletable field_name = True"

definition rescue_file :: fc where
  "rescue_file =
     \<lparr>fc_fields =
        [\<lparr>f_name = ''FID'', f_type = ''OID'', f_length = 4\<rparr>,
         \<lparr>f_name = ''Shape'', f_type = ''Geometry'', f_length = 0\<rparr>,
         \<lparr>f_name = ''TempX'', f_type = ''String'', f_length = 20\<rparr>,
         \<lparr>f_name = ''Label'', f_type = ''String'', f_length = 20\<rparr>],
      fc_rows =
        [[(''FID'', PInt 0), (''Shape'', PNone), (''TempX'', PStr ''t''),
          (''Label'', PStr ''a'')]]\<rparr>"

section \<open>SpecialCaseProcessor: the \<open>Sommerso\<close> flag\<close>

text \<open>
  The value computed for each row in \<open>process_sommerso_field_optimized\<close>:
  \<open>if sommerso_val in [1, "1", "1.0"]: "SI"  elif sommerso_val in [2, "2", "2.0"]: "NO"
  else: ""\<close>.
\<close>

definition sommerso_new_val :: "pyval \<Rightarrow> string" where
  "sommerso_new_val sommerso_val =
     (if py_in_list sommerso_val [PInt 1, PStr ''1'', PStr ''1.0''] then ''SI''
      else if py_in_list sommerso_val [PInt 2, PStr ''2'', PStr ''2.0''] then ''NO''
      else '''')"

text \<open>
  The source field: the first entry of \<open>existing_fields\<close> whose upper-case name contains
  \<open>SOMMERSO\<close> and not \<open>SOMMERSO_\<close>. The entries are taken in the order of the fields
  (when several fields qualify, Python 2 leaves the order of a dictionary open).
\<close>

definition find_sommerso_field :: "fc \<Rightarrow> string option" where
  "find_sommerso_field shp =
     map_option snd
       (find (\<lambda>kv. py_in_str ''SOMMERSO'' (fst kv) \<and> \<not> py_in_str ''SOMMERSO_'' (fst kv))
          (existing_fields shp))"

text \<open>
  \<open>process_sommerso_field_optimized\<close>. \<open>Inl\<close> is the exception of an \<open>AddField\<close> outside
  the \<open>try\<close>, which leaves the file as it was; an exception of the cursor is caught and
  logged by the source, and the file stays as the cursor left it.
\<close>

definition process_sommerso_field_optimized :: "fc \<Rightarrow> pyerr + fc" where
  "process_sommerso_field_optimized shp =
     (case find_sommerso_field shp of
        None \<Rightarrow> AddField_management shp ''Sommerso_'' 10
      | Some sommerso_field \<Rightarrow>
          (case (if ''SOMMERSO_'' \<notin> set (map fst (existing_fields shp))
                 then AddField_management shp ''Sommerso_'' 10 else Inr shp) of
             Inl e \<Rightarrow> Inl e
           | Inr shp1 \<Rightarrow>
               Inr (fst (UpdateCursor (\<lambda>v. Inr (sommerso_new_val v)) shp1 sommerso_field ''Sommerso_''))))"

text \<open>
  The same flag in the open-library pipeline (\<open>_som\<close> in \<open>process_gpkg\<close>):
  \<open>if str(v) in ('1','1.0') or v == 1: return 'SI'\<close>, likewise for two, else \<open>''\<close>.
\<close>

definition som :: "pylib \<Rightarrow> pyval \<Rightarrow> string" where
  "som L v =
     (if py_str L v \<in> set [''1'', ''1.0''] \<or> py_eq v (PInt 1) then ''SI''
      else if py_str L v \<in> set [''2'', ''2.0''] \<or> py_eq v (PInt 2) then ''NO''
      else '''')"

text \<open>A polygon file with a \<open>SOMMERSO\<close> column holding the values of Scenario C.\<close>

definition scenario_c_file :: fc where
  "scenario_c_file =
     \<lparr>fc_fields =
        [\<lparr>f_name = ''FID'', f_type = ''OID'', f_length = 4\<rparr>,
         \<lparr>f_name = ''Shape'', f_type = ''Geometry'', f_length = 0\<rparr>,
         \<lparr>f_name = ''Sommerso'', f_type = ''String'', f_length = 10\<rparr>],
      fc_rows =
        [[(''FID'', PInt 0), (''Shape'', PNone), (''Sommerso'', PInt 1)],
         [(''FID'', PInt 1), (''Shape'', PNone), (''Sommerso'', PStr ''1'')],
         [(''FID'', PInt 2), (''Shape'', PNone), (''Sommerso'', PStr ''1.0'')],
         [(''FID'', PInt 3), (''Shape'', PNone), (''Sommerso'', PInt 2)],
         [(''FID'', PInt 4), (''Shape'', PNone), (''Sommerso'', PStr ''2'')],
         [(''FID'', PInt 5), (''Shape'', PNone), (''Sommerso'', PStr ''2.0'')],
         [(''FID'', PInt 6), (''Shape'', PNone), (''Sommerso'', PNone)],
         [(''FID'', PInt 7), (''Shape'', PNone), (''Sommerso'', PStr ''x'')],
         [(''FID'', PInt 8), (''Shape'', PNone), (''Sommerso'', PInt 3)]]\<rparr>"

section \<open>DomainRegistry: \<open>load_domain_mappings\<close> and \<open>apply_domain_mapping\<close>\<close>

text \<open>
  The processor's paths, and the tables the store holds, by path. \<open>os.path.join\<close> is
  modelled on a directory and a file name.
\<close>

record env =
  input_gpkg :: string
  domini_path :: string

type_synonym tables = "string \<rightharpoonup> fc"

definition path_join :: "string \<Rightarrow> string \<Rightarrow> string" where
  "path_join dir file = dir @ ''/'' @ file"

text \<open>
  The keys one row of a domain table is stored under: the trimmed string of the code
  and, when that string consists of digits, points and dashes, the code itself, its float
  and the integer the float truncates to. A \<open>ValueError\<close> of the conversions is caught and
  the code itself is added; an \<open>OverflowError\<close> (the float is infinite) is not caught
  there: it reaches the handler of the row, which skips the row.
\<close>

definition row_keys :: "pylib \<Rightarrow> pyval \<Rightarrow> pyerr + pykey list" where
  "row_keys L code_val =
     (let keys_to_map = [KStr (py_strip (py_str L code_val))] in
      if numeric_looking (py_str L code_val) then
        (case float_of_str L (py_str L code_val) of
           None \<Rightarrow> Inr (keys_to_map @ [key_of code_val])
         | Some float_val \<Rightarrow>
             (case py_int_of_float float_val of
                Inl e \<Rightarrow> if e = ValueError then Inr (keys_to_map @ [key_of code_val]) else Inl e
              | Inr int_val \<Rightarrow>
                  Inr (keys_to_map @
                       [key_of code_val, key_of (PFloat float_val), key_of (PInt int_val)])))
      else Inr keys_to_map)"

definition desc_clean :: "pylib \<Rightarrow> pyval \<Rightarrow> string" where
  "desc_clean L desc_val = py_strip (py_str L desc_val)"

text \<open>
  The keys a row \<open>(code, description)\<close> ends up stored under: none when either value is
  \<open>None\<close> or when the row is skipped.
\<close>

definition keys_of_row :: "pylib \<Rightarrow> pyval \<times> pyval \<Rightarrow> pykey list" where
  "keys_of_row L row =
     (if fst row \<noteq> PNone \<and> snd row \<noteq> PNone then
        (case row_keys L (fst row) of Inl e \<Rightarrow> [] | Inr keys_to_map \<Rightarrow> keys_to_map)
      else [])"

text \<open>The body of the cursor loop: \<open>for key in keys_to_map: code_map[key] = desc_clean\<close>.\<close>

definition add_row :: "pylib \<Rightarrow> code_map \<Rightarrow> pyval \<times> pyval \<Rightarrow> code_map" where
  "add_row L code_map row =
     foldl (\<lambda>m key. dict_set m key (desc_clean L (snd row))) code_map (keys_of_row L row)"

definition build_code_map :: "pylib \<Rightarrow> (pyval \<times> pyval) list \<Rightarrow> code_map" where
  "build_code_map L rows = foldl (add_row L) [] rows"

text \<open>
  The description field is the first field whose upper-case name contains the upper-case
  pattern.
\<close>

definition find_desc_field :: "string \<Rightarrow> fc \<Rightarrow> string option" where
  "find_desc_field desc_field_pattern t =
     find (\<lambda>field_name. py_in_str (py_upper desc_field_pattern) (py_upper field_name))
       (field_names t)"

definition table_rows :: "fc \<Rightarrow> string \<Rightarrow> string \<Rightarrow> (pyval \<times> pyval) list" where
  "table_rows t code_field desc_field =
     map (\<lambda>r. (row_get r code_field, row_get r desc_field)) (fc_rows t)"

definition domain_table_path :: "env \<Rightarrow> string \<Rightarrow> bool \<Rightarrow> string" where
  "domain_table_path e domain_file is_gpkg_table =
     (if is_gpkg_table then path_join (input_gpkg e) domain_file
      else path_join (domini_path e) domain_file)"

text \<open>
  What a load reads from the store: the empty map when the table, the description
  field or the code field is missing (the soft failures, each logged as a warning).
\<close>

definition read_domain ::
  "pylib \<Rightarrow> env \<Rightarrow> tables \<Rightarrow> string \<Rightarrow> string \<Rightarrow> string \<Rightarrow> bool \<Rightarrow> code_map option" where
  "read_domain L e ts domain_file code_field desc_field_pattern is_gpkg_table =
     (case ts (domain_table_path e domain_file is_gpkg_table) of
        None \<Rightarrow> None
      | Some t \<Rightarrow>
          (case find_desc_field desc_field_pattern t of
             None \<Rightarrow> None
           | Some desc_field \<Rightarrow>
               if desc_field = [] then None
               else if code_field \<notin> set (field_names t) then None
               else Some (build_code_map L (table_rows t code_field desc_field))))"

text \<open>
  \<open>load_domain_mappings\<close> of \<open>BDgpkg2shape.py\<close>. The processor's \<open>_domain_cache\<close> is set
  to the empty dictionary by \<open>__init__\<close> and read or written nowhere in that file: the
  function reads the store at every call.
\<close>

definition load_domain_mappings ::
  "pylib \<Rightarrow> env \<Rightarrow> tables \<Rightarrow> string \<Rightarrow> string \<Rightarrow> string \<Rightarrow> bool \<Rightarrow> code_map" where
  "load_domain_mappings L e ts domain_file code_field desc_field_pattern is_gpkg_table =
     (case read_domain L e ts domain_file code_field desc_field_pattern is_gpkg_table of
        None \<Rightarrow> []
      | Some code_map \<Rightarrow> code_map)"

text \<open>
  \<open>load_domain_mappings\<close> of \<open>BDgpkg2shapePRO.py\<close>: the same reading, by the string
  methods of Python 3, behind a cache keyed by the four arguments. A soft failure returns
  the empty map and caches nothing; a map that was read is cached, empty or not.
\<close>

definition row_keys_pro :: "pylib \<Rightarrow> pyval \<Rightarrow> pyerr + pykey list" where
  "row_keys_pro L code_val =
     (let keys_to_map = [KStr (py3_strip (py_str L code_val))];
          str_code = py_str L code_val in
      if numeric_looking3 str_code then
        (case float_of_str L str_code of
           None \<Rightarrow> Inr (keys_to_map @ [key_of code_val])
         | Some float_val \<Rightarrow>
             (case py_int_of_float float_val of
                Inl e \<Rightarrow> if e = ValueError then Inr (keys_to_map @ [key_of code_val]) else Inl e
              | Inr int_val \<Rightarrow>
                  Inr (keys_to_map @
                       [key_of code_val, key_of (PFloat float_val), key_of (PInt int_val)])))
      else Inr keys_to_map)"

definition add_row_pro :: "pylib \<Rightarrow> code_map \<Rightarrow> pyval \<times> pyval \<Rightarrow> code_map" where
  "add_row_pro L code_map row =
     (if fst row \<noteq> PNone \<and> snd row \<noteq> PNone then
        (case row_keys_pro L (fst row) of
           Inl e \<Rightarrow> code_map
         | Inr keys_to_map \<Rightarrow>
             foldl (\<lambda>m key. dict_set m key (py3_strip (py_str L (snd row)))) code_map keys_to_map)
      else code_map)"

definition read_domain_pro ::
  "pylib \<Rightarrow> env \<Rightarrow> tables \<Rightarrow> string \<Rightarrow> string \<Rightarrow> string \<Rightarrow> bool \<Rightarrow> code_map option" where
  "read_domain_pro L e ts domain_file code_field desc_field_pattern is_gpkg_table =
     (case ts (domain_table_path e domain_file is_gpkg_table) of
        None \<Rightarrow> None
      | Some t \<Rightarrow>
          (case find_desc_field desc_field_pattern t of
             None \<Rightarrow> None
           | Some desc_field \<Rightarrow>
               if desc_field = [] then None
               else if code_field \<notin> set (field_names t) then None
               else Some (foldl (add_row_pro L) [] (table_rows t code_field desc_field))))"

type_synonym cache_key = "string \<times> string \<times> string \<times> bool"

type_synonym domain_cache = "cache_key \<rightharpoonup> code_map"

definition load_domain_mappings_pro ::
  "pylib \<Rightarrow> env \<Rightarrow> tables \<Rightarrow> domain_cache \<Rightarrow> string \<Rightarrow> string \<Rightarrow> string \<Rightarrow> bool
     \<Rightarrow> code_map \<times> domain_cache" where
  "load_domain_mappings_pro L e ts domain_cache domain_file code_field desc_field_pattern is_gpkg_table =
     (let cache_key = (domain_file, code_field, desc_field_pattern, is_gpkg_table) in
      case domain_cache cache_key of
        Some code_map \<Rightarrow> (code_map, domain_cache)
      | None \<Rightarrow>
          (case read_domain_pro L e ts domain_file code_field desc_field_pattern is_gpkg_table of
             None \<Rightarrow> ([], domain_cache)
           | Some code_map \<Rightarrow> (code_map, domain_cache(cache_key \<mapsto> code_map))))"

text \<open>
  The lookup of one source value in \<open>apply_domain_mapping\<close>: the raw value, its trimmed
  string, the float parsed from that string, the integer the float truncates to; the
  first hit is returned, the empty string when none hits or the value is \<open>None\<close>. The
  handler around the conversions catches \<open>ValueError\<close> and \<open>TypeError\<close> only.
\<close>

definition mapped_value :: "pylib \<Rightarrow> code_map \<Rightarrow> pyval \<Rightarrow> pyerr + string" where
  "mapped_value L code_map src_val =
     (if src_val = PNone then Inr ''''
      else
        (case dict_get code_map src_val of
           Some d \<Rightarrow> Inr d
         | None \<Rightarrow>
             (let str_val = py_strip (py_str L src_val) in
              case dict_get code_map (PStr str_val) of
                Some d \<Rightarrow> Inr d
              | None \<Rightarrow>
                  (case float_of_str L str_val of
                     None \<Rightarrow> Inr ''''
                   | Some float_val \<Rightarrow>
                       (case dict_get code_map (PFloat float_val) of
                          Some d \<Rightarrow> Inr d
                        | None \<Rightarrow>
                            (case py_int_of_float float_val of
                               Inl e \<Rightarrow> if e = ValueError then Inr '''' else Inl e
                             | Inr i \<Rightarrow>
                                 (case dict_get code_map (PInt i) of
                                    Some d \<Rightarrow> Inr d
                                  | None \<Rightarrow> Inr '''')))))))"

text \<open>
  \<open>apply_domain_mapping\<close>. With an empty map it logs a warning and returns. Otherwise
  the target field is added when no field of that name exists, and the cursor writes
  every row; an exception inside the cursor block is caught and logged as an error.
  \<open>Inl\<close> is an exception of \<open>AddField\<close>, which is outside the \<open>try\<close>. Of the log, the
  warnings and errors are modelled, the progress messages are not.
\<close>

definition apply_domain_mapping ::
  "pylib \<Rightarrow> fc \<Rightarrow> string \<Rightarrow> string \<Rightarrow> code_map \<Rightarrow> pyerr + fc \<times> log_entry list" where
  "apply_domain_mapping L shp field_name source_field code_map =
     (if code_map = [] then
        Inr (shp, [Warning (''No domain mappings available for '' @ field_name)])
      else
        (case (if py_upper field_name \<notin> set (map fst (existing_fields shp))
               then AddField_management shp field_name 255 else Inr shp) of
           Inl e \<Rightarrow> Inl e
         | Inr shp1 \<Rightarrow>
             (case UpdateCursor (mapped_value L code_map) shp1 source_field field_name of
                (shp2, None) \<Rightarrow> Inr (shp2, [])
              | (shp2, Some e) \<Rightarrow>
                  Inr (shp2, [Error (''Error applying domain mapping for '' @ field_name)]))))"

text \<open>
  The values a code can be met as in a source field: the code itself, its trimmed
  string and, when it is numeric, its float and its integer.
\<close>

definition representations :: "pylib \<Rightarrow> pyval \<Rightarrow> pyval list" where
  "representations L code_val =
     [code_val, PStr (py_strip (py_str L code_val))] @
     (if numeric_looking (py_str L code_val) then
        (case float_of_str L (py_str L code_val) of
           None \<Rightarrow> []
         | Some float_val \<Rightarrow>
             (case py_int_of_float float_val of
                Inl e \<Rightarrow> []
              | Inr int_val \<Rightarrow> [PFloat float_val, PInt int_val]))
      else [])"

text \<open>The keys the lookup of a source value may probe, in the order it probes them.\<close>

definition probe_keys :: "pylib \<Rightarrow> pyval \<Rightarrow> pykey list" where
  "probe_keys L src_val =
     [key_of src_val, KStr (py_strip (py_str L src_val))] @
     (case float_of_str L (py_strip (py_str L src_val)) of
        None \<Rightarrow> []
      | Some float_val \<Rightarrow>
          key_of (PFloat float_val) #
          (case py_int_of_float float_val of Inl e \<Rightarrow> [] | Inr i \<Rightarrow> [key_of (PInt i)]))"

text \<open>
  Of the keys the lookup of a source value probes, the first one that some row of the
  table stores, and the last row of the table that stores a key: that row's description
  is the one the dictionary holds for the key once the table is read.
\<close>

definition first_stored_key :: "pylib \<Rightarrow> (pyval \<times> pyval) list \<Rightarrow> pyval \<Rightarrow> pykey option" where
  "first_stored_key L rows src_val =
     find (\<lambda>k. k \<noteq> KNaN \<and> list_ex (\<lambda>row. k \<in> set (keys_of_row L row)) rows)
       (probe_keys L src_val)"

definition last_storing_row ::
  "pylib \<Rightarrow> (pyval \<times> pyval) list \<Rightarrow> pykey \<Rightarrow> (pyval \<times> pyval) option" where
  "last_storing_row L rows k = find (\<lambda>row. k \<in> set (keys_of_row L row)) (rev rows)"

text \<open>Example tables and a point file with a \<open>Tipo\<close> column.\<close>

definition example_env :: env where
  "example_env = \<lparr>input_gpkg = ''in.gpkg'', domini_path = ''domini''\<rparr>"

definition domain_table :: "(pyval \<times> pyval) list \<Rightarrow> fc" where
  "domain_table rows =
     \<lparr>fc_fields =
        [\<lparr>f_name = ''OID'', f_type = ''OID'', f_length = 4\<rparr>,
         \<lparr>f_name = ''CODE'', f_type = ''String'', f_length = 10\<rparr>,
         \<lparr>f_name = ''DESCR'', f_type = ''String'', f_length = 100\<rparr>],
      fc_rows = map (\<lambda>row. [(''OID'', PNone), (''CODE'', fst row), (''DESCR'', snd row)]) rows\<rparr>"

definition example_tables :: "(pyval \<times> pyval) list \<Rightarrow> tables" where
  "example_tables rows = [''domini/d_tipo.dbf'' \<mapsto> domain_table rows]"

definition collision_rows :: "(pyval \<times> pyval) list" where
  "collision_rows = [(PStr ''2'', PStr ''Clay''), (PStr ''2.5'', PStr ''Sand'')]"

definition overlap_rows :: "(pyval \<times> pyval) list" where
  "overlap_rows = [(PStr ''1'', PStr ''A''), (PStr ''1.5'', PStr ''B'')]"

definition point_file :: "pyval list \<Rightarrow> fc" where
  "point_file vs =
     \<lparr>fc_fields =
        [\<lparr>f_name = ''FID'', f_type = ''OID'', f_length = 4\<rparr>,
         \<lparr>f_name = ''Shape'', f_type = ''Geometry'', f_length = 0\<rparr>,
         \<lparr>f_name = ''Tipo'', f_type = ''String'', f_length = 10\<rparr>],
      fc_rows = map (\<lambda>v. [(''FID'', PNone), (''Shape'', PNone), (''Tipo'', v)]) vs\<rparr>"

text \<open>Two contents of one domain table, before and after it is edited.\<close>

definition rows_before :: "(pyval \<times> pyval) list" where
  "rows_before = [(PStr ''A'', PStr ''Attivo'')]"

definition rows_after :: "(pyval \<times> pyval) list" where
  "rows_after = [(PStr ''A'', PStr ''Quiescente'')]"

definition no_tables :: tables where
  "no_tables = Map.empty"

definition no_cache :: domain_cache where
  "no_cache = Map.empty"

section \<open>Sheet-id injection: \<open>_add_foglio_field\<close>\<close>

text \<open>
  \<open>arcpy.CalculateField_management(shapefile, field, expression, "PYTHON_9.3")\<close>
  (\<open>"PYTHON3"\<close> in the PRO script) evaluates the expression as Python and writes its value
  into the field of every row. The evaluation is the store's: \<open>py_eval\<close> gives the value of
  an expression text, or the exception of the call. The scripts build the expression with
  \<open>"'{}'".format(value)\<close>.
\<close>

definition quoted :: "string \<Rightarrow> string" where
  "quoted s = [CHR 0x27] @ s @ [CHR 0x27]"

definition CalculateField_management ::
  "(string \<Rightarrow> pyerr + pyval) \<Rightarrow> fc \<Rightarrow> string \<Rightarrow> string \<Rightarrow> fc \<times> pyerr option" where
  "CalculateField_management py_eval shp field_name expression =
     (case resolve_field shp field_name of
        None \<Rightarrow> (shp, Some ExecuteError)
      | Some tgt \<Rightarrow>
          (case py_eval expression of
             Inl e \<Rightarrow> (shp, Some e)
           | Inr v \<Rightarrow> (shp\<lparr>fc_rows := map (\<lambda>r. row_set r tgt v) (fc_rows shp)\<rparr>, None)))"

text \<open>
  A concrete evaluator for examples: a single-quoted text with no quote, backslash or
  line break inside denotes that text.
\<close>

definition literal_eval :: "string \<Rightarrow> pyerr + pyval" where
  "literal_eval expression =
     (case expression of
        [] \<Rightarrow> Inl ExecuteError
      | q # rest \<Rightarrow>
          if q = CHR 0x27 \<and> rest \<noteq> [] \<and> last rest = CHR 0x27
             \<and> list_all (\<lambda>c. c \<notin> set [CHR 0x27, CHR 0x5C, CHR 0x0A, CHR 0x0D]) (butlast rest)
          then Inr (PStr (butlast rest))
          else Inl ExecuteError)"

text \<open>
  \<open>_add_foglio_field\<close> of \<open>BDgpkg2shape.py\<close>: the field is added when no field named
  \<open>FOGLIO\<close> (in any case) exists, and the sheet value extracted from the geopackage is
  written as it is. The result is the file as the function leaves it and the exception
  that escapes it, if any.
\<close>

definition add_foglio_field ::
  "(string \<Rightarrow> pyerr + pyval) \<Rightarrow> string \<Rightarrow> fc \<Rightarrow> fc \<times> pyerr option" where
  "add_foglio_field py_eval foglio shp =
     (case (if ''FOGLIO'' \<notin> set (map fst (existing_fields shp))
            then AddField_management shp ''Foglio'' 50 else Inr shp) of
        Inl e \<Rightarrow> (shp, Some e)
      | Inr shp1 \<Rightarrow> CalculateField_management py_eval shp1 ''Foglio'' (quoted foglio))"

text \<open>\<open>foglio_domain.get(self.foglio, self.foglio)\<close>: one lookup, by the sheet value as a string.\<close>

definition foglio_lookup :: "code_map \<Rightarrow> string \<Rightarrow> string" where
  "foglio_lookup foglio_domain foglio =
     (case dict_get foglio_domain (PStr foglio) of Some d \<Rightarrow> d | None \<Rightarrow> foglio)"

text \<open>
  \<open>_add_foglio_field\<close> of \<open>BDgpkg2shapePRO.py\<close>: the domain \<open>d_foglio.dbf\<close> is loaded
  (through the cache), with code field \<open>N1\<close> and description pattern \<open>N2\<close>; an empty
  domain gives the raw value, otherwise the looked-up value is written.
\<close>

definition add_foglio_field_pro ::
  "(string \<Rightarrow> pyerr + pyval) \<Rightarrow> pylib \<Rightarrow> env \<Rightarrow> tables \<Rightarrow> domain_cache \<Rightarrow> string \<Rightarrow> fc
     \<Rightarrow> (fc \<times> pyerr option) \<times> domain_cache" where
  "add_foglio_field_pro py_eval L e ts domain_cache foglio shp =
     (case (if ''FOGLIO'' \<notin> set (map fst (existing_fields shp))
            then AddField_management shp ''Foglio'' 254 else Inr shp) of
        Inl err \<Rightarrow> ((shp, Some err), domain_cache)
      | Inr shp1 \<Rightarrow>
          (case load_domain_mappings_pro L e ts domain_cache ''d_foglio.dbf'' ''N1'' ''N2'' False of
             (foglio_domain, domain_cache') \<Rightarrow>
               if foglio_domain = [] then
                 (CalculateField_management py_eval shp1 ''Foglio'' (quoted foglio), domain_cache')
               else
                 (CalculateField_management py_eval shp1 ''Foglio''
                    (quoted (foglio_lookup foglio_domain foglio)), domain_cache')))"

text \<open>A store whose \<open>d_foglio.dbf\<close> names sheet 348.\<close>

definition foglio_table :: fc where
  "foglio_table =
     \<lparr>fc_fields =
        [\<lparr>f_name = ''N1'', f_type = ''Integer'', f_length = 4\<rparr>,
         \<lparr>f_name = ''N2'', f_type = ''String'', f_length = 100\<rparr>],
      fc_rows = [[(''N1'', PInt 348), (''N2'', PStr ''Antrodoco'')]]\<rparr>"

definition foglio_tables :: tables where
  "foglio_tables = [''domini/d_foglio.dbf'' \<mapsto> foglio_table]"

text \<open>The same table with the sheet name padded by a space and a no-break space.\<close>

definition padded_foglio_tables :: tables where
  "padded_foglio_tables =
     [''domini/d_foglio.dbf'' \<mapsto>
        foglio_table\<lparr>fc_rows :=
          [[(''N1'', PInt 348), (''N2'', PStr ('' Antrodoco'' @ [CHR 0xA0]))]]\<rparr>]"

section \<open>MergeEngine: \<open>combine_geology_lines_optimized\<close>\<close>

text \<open>
  The output directory is a map from paths to files. \<open>arcpy.Append_management(source,
  dest, "NO_TEST")\<close> is the store's: \<open>append_op\<close> gives the destination as the call leaves
  it, and the exception it raises, if any. The script does not trust it: it counts the
  features before and after. \<open>standardize\<close> stands for
  \<open>standardize_field_names_and_order\<close> on the merged file.
\<close>

definition dest_path :: "string \<Rightarrow> string" where
  "dest_path workspace_output = path_join workspace_output ''geologia_linee.shp''"

definition source_path :: "string \<Rightarrow> string" where
  "source_path workspace_output = path_join workspace_output ''geologia_linee_pieghe.shp''"

definition GetCount :: "fc \<Rightarrow> nat" where
  "GetCount shp = length (fc_rows shp)"

text \<open>
  The counted append: the counts, the append, the check, and the deletion of the source
  when the check succeeds. The flag tells whether the block ended without an exception.
\<close>

definition append_verified ::
  "(fc \<Rightarrow> fc \<Rightarrow> fc \<times> pyerr option) \<Rightarrow> string \<Rightarrow> tables \<Rightarrow> fc \<Rightarrow> fc
     \<Rightarrow> tables \<times> log_entry list \<times> bool" where
  "append_verified append_op workspace_output files dest source =
     (let dest_count_before = GetCount dest;
          source_count = GetCount source
      in case append_op source dest of
           (dest', Some e) \<Rightarrow>
             (files(dest_path workspace_output \<mapsto> dest'),
              [Error ''Failed to combine geology lines''], False)
         | (dest', None) \<Rightarrow>
             (let dest_count_after = GetCount dest' in
              if dest_count_after = dest_count_before + source_count then
                ((files(dest_path workspace_output \<mapsto> dest'))(source_path workspace_output := None),
                 [], True)
              else
                (files(dest_path workspace_output \<mapsto> dest'),
                 [Warning ''Append operation may have issues'',
                  Warning ''Expected features count differs''], True)))"

definition combine_geology_lines_optimized ::
  "(fc \<Rightarrow> fc \<Rightarrow> fc \<times> pyerr option) \<Rightarrow> (fc \<Rightarrow> fc) \<Rightarrow> string \<Rightarrow> tables
     \<Rightarrow> tables \<times> log_entry list" where
  "combine_geology_lines_optimized append_op standardize workspace_output files =
     (case files (dest_path workspace_output) of
        None \<Rightarrow>
          (files, [Warning (''Destination file not found: '' @ dest_path workspace_output)])
      | Some dest \<Rightarrow>
          (case files (source_path workspace_output) of
             None \<Rightarrow>
               (files, [Warning (''Source file not found: '' @ source_path workspace_output)])
           | Some source \<Rightarrow>
               (case append_verified append_op workspace_output files dest source of
                  (files', entries, completed) \<Rightarrow>
                    if completed then
                      (case files' (dest_path workspace_output) of
                         None \<Rightarrow> (files', entries)
                       | Some merged \<Rightarrow>
                           (files'(dest_path workspace_output \<mapsto> standardize merged), entries))
                    else (files', entries))))"

text \<open>
  The append of the open-library pipeline: when both files exist, the rows of the two
  are concatenated (the columns are the union), the result is written over the
  destination, and the source is removed inside a \<open>try\<close> whose failure is ignored.
\<close>

definition concat_frames :: "fc \<Rightarrow> fc \<Rightarrow> fc" where
  "concat_frames gL gP =
     \<lparr>fc_fields = fc_fields gL @ filter (\<lambda>f. f_name f \<notin> set (field_names gL)) (fc_fields gP),
      fc_rows = fc_rows gL @ fc_rows gP\<rparr>"

definition pipeline_append :: "bool \<Rightarrow> string \<Rightarrow> tables \<Rightarrow> tables" where
  "pipeline_append remove_ok output_dir files =
     (case (files (source_path output_dir), files (dest_path output_dir)) of
        (Some gP, Some gL) \<Rightarrow>
          (let files' = files(dest_path output_dir \<mapsto> concat_frames gL gP)
           in if remove_ok then files'(source_path output_dir := None) else files')
      | _ \<Rightarrow> files)"

text \<open>
  An append that adds every feature of the source, one that loses the last one, and the
  files of Scenario E.
\<close>

definition full_append :: "fc \<Rightarrow> fc \<Rightarrow> fc \<times> pyerr option" where
  "full_append source dest = (dest\<lparr>fc_rows := fc_rows dest @ fc_rows source\<rparr>, None)"

definition lossy_append :: "fc \<Rightarrow> fc \<Rightarrow> fc \<times> pyerr option" where
  "lossy_append source dest = (dest\<lparr>fc_rows := fc_rows dest @ butlast (fc_rows source)\<rparr>, None)"

definition keep_schema :: "fc \<Rightarrow> fc" where
  "keep_schema shp = shp"

definition line_file :: "nat \<Rightarrow> fc" where
  "line_file n =
     \<lparr>fc_fields =
        [\<lparr>f_name = ''FID'', f_type = ''OID'', f_length = 4\<rparr>,
         \<lparr>f_name = ''Shape'', f_type = ''Geometry'', f_length = 0\<rparr>,
         \<lparr>f_name = ''Foglio'', f_type = ''String'', f_length = 50\<rparr>],
      fc_rows = replicate n [(''FID'', PNone), (''Shape'', PNone), (''Foglio'', PStr ''348'')]\<rparr>"

definition scenario_e_files :: tables where
  "scenario_e_files =
     [''output/geologia_linee.shp'' \<mapsto> line_file 100,
      ''output/geologia_linee_pieghe.shp'' \<mapsto> line_file 25]"

definition only_dest_files :: tables where
  "only_dest_files = [''output/geologia_linee.shp'' \<mapsto> line_file 100]"

section \<open>Facts about the store\<close>

lemma alist_update_set:
  "(k', v') \<in> set (AList.update k v al) \<Longrightarrow> (k', v') = (k, v) \<or> (k', v') \<in> set al"
  by (induction al) (auto split: if_splits)

lemma alist_update_keys: "fst ` set (AList.update k v al) = insert k (fst ` set al)"
  by (induction al) auto

lemma existing_fields_fold_entries:
  "(k, n) \<in> set (foldl (\<lambda>d n. AList.update (py_upper n) n d) d0 ns) \<Longrightarrow>
   (k, n) \<in> set d0 \<or> (n \<in> set ns \<and> k = py_upper n)"
proof (induction ns arbitrary: d0)
  case Nil
  then show ?case by simp
next
  case (Cons m ms)
  from Cons.prems have "(k, n) \<in> set (foldl (\<lambda>d n. AList.update (py_upper n) n d)
                           (AList.update (py_upper m) m d0) ms)" by simp
  from Cons.IH [OF this] show ?case
    by (auto dest: alist_update_set)
qed

lemma existing_fields_fold_keys:
  "fst ` set (foldl (\<lambda>d n. AList.update (py_upper n) n d) d0 ns) = fst ` set d0 \<union> py_upper ` set ns"
  by (induction ns arbitrary: d0) (auto simp: alist_update_keys)

lemma existing_fields_entry:
  "(k, n) \<in> set (existing_fields shp) \<Longrightarrow> n \<in> set (field_names shp) \<and> k = py_upper n"
  using existing_fields_fold_entries [of k n "[]" "field_names shp"]
  by (simp add: existing_fields_def)

lemma existing_fields_keys:
  "set (map fst (existing_fields shp)) = py_upper ` set (field_names shp)"
  using existing_fields_fold_keys [of "[]" "field_names shp"]
  by (simp add: existing_fields_def)

lemma find_sommerso_field_Some:
  assumes "find_sommerso_field shp = Some sf"
  shows "sf \<in> set (field_names shp) \<and> \<not> py_in_str ''SOMMERSO_'' (py_upper sf)"
proof -
  from assms obtain kv where
    kv: "find (\<lambda>kv. py_in_str ''SOMMERSO'' (fst kv) \<and> \<not> py_in_str ''SOMMERSO_'' (fst kv))
           (existing_fields shp) = Some kv" and sf: "sf = snd kv"
    by (auto simp: find_sommerso_field_def)
  from kv have "kv \<in> set (existing_fields shp)" "\<not> py_in_str ''SOMMERSO_'' (fst kv)"
    by (auto simp: find_Some_iff)
  then show ?thesis using existing_fields_entry [of "fst kv" "snd kv" shp] sf by simp
qed

lemma resolve_field_exists:
  "py_upper name \<in> py_upper ` set (field_names shp) \<Longrightarrow>
   \<exists>n. resolve_field shp name = Some n \<and> n \<in> set (field_names shp) \<and> py_upper n = py_upper name"
  unfolding resolve_field_def
  by (cases "find (\<lambda>n. py_upper n = py_upper name) (field_names shp)")
     (auto simp: find_None_iff find_Some_iff)

lemma resolve_field_upper:
  "resolve_field shp name = Some n \<Longrightarrow> n \<in> set (field_names shp) \<and> py_upper n = py_upper name"
  by (auto simp: resolve_field_def find_Some_iff)

lemma find_append_Some: "find P xs = Some x \<Longrightarrow> find P (xs @ ys) = Some x"
  by (induction xs) auto

lemma find_append_None: "find P xs = None \<Longrightarrow> find P (xs @ ys) = find P ys"
  by (induction xs) (auto split: if_splits)

lemma update_rows_total:
  "update_rows (\<lambda>v. Inr (g v)) src tgt rs
   = (map (\<lambda>r. row_set (row_set r src (row_get r src)) tgt (PStr (g (row_get r src)))) rs, None)"
  by (induction rs) auto

lemma row_get_set_same: "row_get (row_set r n v) n = v"
  by (simp add: row_get_def row_set_def update_conv')

lemma row_get_set_other: "m \<noteq> n \<Longrightarrow> row_get (row_set r n v) m = row_get r m"
  by (simp add: row_get_def row_set_def update_conv')

lemma row_get_append_other: "m \<noteq> n \<Longrightarrow> row_get (r @ [(n, v)]) m = row_get r m"
proof -
  assume "m \<noteq> n"
  then have "map_of (r @ [(n, v)]) m = map_of r m"
    by (induction r) auto
  then show ?thesis by (simp add: row_get_def)
qed

section \<open>Verification of the cleanup step\<close>

lemma field_survives_drop:
  "f \<in> set (fc_fields shp) \<Longrightarrow> f_name f \<notin> set names \<Longrightarrow> f \<in> set (fc_fields (drop_fields names shp))"
  by (simp add: drop_fields_def)

lemma field_survives_DeleteField:
  "DeleteField_management deletable shp names = Inr shp' \<Longrightarrow>
   f \<in> set (fc_fields shp) \<Longrightarrow> f_name f \<notin> set names \<Longrightarrow> f \<in> set (fc_fields shp')"
  by (auto simp: DeleteField_management_def field_survives_drop split: if_splits)

lemma field_survives_individually:
  "f \<in> set (fc_fields shp) \<Longrightarrow> f_name f \<notin> set names \<Longrightarrow>
   f \<in> set (fc_fields (delete_individually deletable names shp))"
  unfolding delete_individually_def
proof (induction names arbitrary: shp)
  case Nil
  then show ?case by simp
next
  case (Cons n ns)
  have "f \<in> set (fc_fields (case DeleteField_management deletable shp [n] of Inr acc' \<Rightarrow> acc' | Inl _ \<Rightarrow> shp))"
    using Cons.prems by (auto simp: DeleteField_management_def drop_fields_def split: sum.splits if_splits)
  then show ?case using Cons by simp
qed

lemma field_survives_remove_fields:
  "f \<in> set (fc_fields shp) \<Longrightarrow> f_name f \<notin> set del \<Longrightarrow>
   f \<in> set (fc_fields (remove_fields deletable del shp))"
  by (auto simp: remove_fields_def field_survives_individually 
      split: sum.splits dest: field_survives_DeleteField)

lemma fields_subset_drop: "set (fc_fields (drop_fields names shp)) \<subseteq> set (fc_fields shp)"
  by (auto simp: drop_fields_def)

lemma foglio_not_in_initial:
  "''Foglio'' \<in> set (field_names shp) \<Longrightarrow> ''Foglio'' \<notin> set (initial_fields_to_delete keep shp)"
  by (simp add: initial_fields_to_delete_def fields_to_keep_def)

lemma rescue_subset: "set (rescue del) \<subseteq> set del"
  using set_remove1_subset by (fastforce simp: rescue_def split: option.splits)

lemma fields_to_delete_subset:
  "set (fields_to_delete keep shp) \<subseteq> set (initial_fields_to_delete keep shp)"
  using rescue_subset by (auto simp: fields_to_delete_def Let_def)

lemma rescued_field_in: "rescued_field del = Some r \<Longrightarrow> r \<in> set del"
  by (auto simp: rescued_field_def find_Some_iff split: option.splits list.splits)

lemma rescued_field_nonempty: "del \<noteq> [] \<Longrightarrow> \<exists>r. rescued_field del = Some r"
  by (auto simp: rescued_field_def split: option.splits list.splits)

lemma rescue_removes:
  "distinct del \<Longrightarrow> rescued_field del = Some r \<Longrightarrow> r \<notin> set (rescue del)"
  by (simp add: rescue_def)



lemma fields_remove_fields_subset:
  "set (fc_fields (remove_fields deletable del shp)) \<subseteq> set (fc_fields shp)"
proof -
  have ind: "set (fc_fields (delete_individually deletable ns s)) \<subseteq> set (fc_fields s)" for ns s
    unfolding delete_individually_def
  proof (induction ns arbitrary: s)
    case Nil
    then show ?case by simp
  next
    case (Cons n ns)
    have step: "set (fc_fields (case DeleteField_management deletable s [n] of Inr acc' \<Rightarrow> acc' | Inl _ \<Rightarrow> s))
                \<subseteq> set (fc_fields s)"
      by (auto simp: DeleteField_management_def drop_fields_def split: sum.splits if_splits)
    show ?case using Cons.IH step by (simp, blast)
  qed
  show ?thesis
    using ind fields_subset_drop
    by (auto simp: remove_fields_def DeleteField_management_def split: sum.splits if_splits)
qed

lemma attr_name_iff:
  "n \<in> set (attr_field_names shp) \<longleftrightarrow>
   (\<exists>f \<in> set (fc_fields shp). f_name f = n \<and> f_type f \<noteq> ''OID'' \<and> f_type f \<noteq> ''Geometry'')"
  by (auto simp: attr_field_names_def)

lemma attr_survives:
  assumes "n \<in> set (attr_field_names shp)" "n \<notin> set del"
  shows "n \<in> set (attr_field_names (remove_fields deletable del shp))"
proof -
  obtain f where f: "f \<in> set (fc_fields shp)" "f_name f = n" "f_type f \<noteq> ''OID''" "f_type f \<noteq> ''Geometry''"
    using assms(1) by (auto simp: attr_name_iff)
  have "f \<in> set (fc_fields (remove_fields deletable del shp))"
    using f assms(2) by (simp add: field_survives_remove_fields)
  then show ?thesis using f by (auto simp: attr_name_iff)
qed

lemma attr_remove_subset:
  "set (attr_field_names (remove_fields deletable del shp)) \<subseteq> set (attr_field_names shp)"
  using fields_remove_fields_subset [of deletable del shp] by (fastforce simp: attr_name_iff)

lemma distinct_attr: "distinct (field_names shp) \<Longrightarrow> distinct (attr_field_names shp)"
  by (simp add: field_names_def attr_field_names_def distinct_map_filter)

lemma distinct_initial:
  "distinct (field_names shp) \<Longrightarrow> distinct (initial_fields_to_delete keep shp)"
  by (simp add: initial_fields_to_delete_def distinct_attr)

lemma initial_subset_attr:
  "set (initial_fields_to_delete keep shp) \<subseteq> set (attr_field_names shp)"
  by (auto simp: initial_fields_to_delete_def)

lemma some_attr_survives:
  assumes d: "distinct (field_names shp)" and ne: "attr_field_names shp \<noteq> []"
  shows "\<exists>n \<in> set (attr_field_names shp). n \<notin> set (fields_to_delete keep shp)"
proof (cases "remaining_data_fields keep shp = []")
  case False
  then obtain n where "n \<in> set (remaining_data_fields keep shp)"
    by (cases "remaining_data_fields keep shp") auto
  then have "n \<in> set (attr_field_names shp)" "n \<notin> set (initial_fields_to_delete keep shp)"
    by (auto simp: remaining_data_fields_def)
  then show ?thesis using fields_to_delete_subset [of keep shp] by blast
next
  case True
  show ?thesis
  proof (cases "initial_fields_to_delete keep shp = []")
    case True
    then have "fields_to_delete keep shp = []"
      using fields_to_delete_subset [of keep shp] by simp
    moreover obtain n where "n \<in> set (attr_field_names shp)"
      using ne by (cases "attr_field_names shp") auto
    ultimately show ?thesis by auto
  next
    case False
    then obtain r where r: "rescued_field (initial_fields_to_delete keep shp) = Some r"
      using rescued_field_nonempty by blast
    have "r \<in> set (attr_field_names shp)"
      using rescued_field_in [OF r] initial_subset_attr by blast
    moreover have "r \<notin> set (fields_to_delete keep shp)"
      using rescue_removes [OF distinct_initial [OF d] r] True
      by (simp add: fields_to_delete_def Let_def)
    ultimately show ?thesis by blast
  qed
qed

lemmas cleanup_defs =
  cleanup_output_fields_def remove_fields_def DeleteField_management_def drop_fields_def
  fields_to_delete_def rescue_def rescued_field_def remaining_data_fields_def
  initial_fields_to_delete_def fields_to_keep_def attr_field_names_def field_names_def
  system_fields_def priority_fields_def all_deletable_def

lemma fst_cleanup:
  "fst (cleanup_output_fields deletable keep shp)
   = remove_fields deletable (fields_to_delete keep shp) shp"
  by (simp add: cleanup_output_fields_def Let_def)

lemma snd_cleanup:
  "snd (cleanup_output_fields deletable keep shp)
   = (if attr_field_names (remove_fields deletable (fields_to_delete keep shp) shp) = []
      then Some RuntimeError else None)"
  by (simp add: cleanup_output_fields_def Let_def)

text \<open>
  Claim C2. For every keep list and every file with distinct field names, under every
  behaviour of the store's field deletion: cleanup raises its \<open>RuntimeError\<close> exactly
  when the file it leaves has no attribute field (a field whose type is neither \<open>OID\<close>
  nor \<open>Geometry\<close>), and that happens exactly when the file had none to begin with, so
  cleanup itself never empties a schema. When no kept data field would remain and the
  deletion list is not empty, exactly one field is taken out of the deletion list: the
  first entry of the priority list found in it, else its first element; that field is
  still an attribute field of the file afterwards. Otherwise the deletion list is the
  list of non-kept fields, unchanged.
\<close>

theorem cleanup_never_empties:
  assumes d: "distinct (field_names shp)"
  shows "(snd (cleanup_output_fields deletable keep shp) = None
            \<longleftrightarrow> attr_field_names (fst (cleanup_output_fields deletable keep shp)) \<noteq> [])
       \<and> (snd (cleanup_output_fields deletable keep shp) = Some RuntimeError
            \<longleftrightarrow> attr_field_names (fst (cleanup_output_fields deletable keep shp)) = [])
       \<and> (attr_field_names (fst (cleanup_output_fields deletable keep shp)) = []
            \<longleftrightarrow> attr_field_names shp = [])
       \<and> (length (remaining_data_fields keep shp) = 0 \<and> initial_fields_to_delete keep shp \<noteq> []
            \<longrightarrow> (\<exists>r. rescued_field (initial_fields_to_delete keep shp) = Some r
                   \<and> r = (case find (\<lambda>p. p \<in> set (initial_fields_to_delete keep shp)) priority_fields of
                            Some p \<Rightarrow> p | None \<Rightarrow> hd (initial_fields_to_delete keep shp))
                   \<and> fields_to_delete keep shp = remove1 r (initial_fields_to_delete keep shp)
                   \<and> length (fields_to_delete keep shp) + 1 = length (initial_fields_to_delete keep shp)
                   \<and> r \<in> set (attr_field_names (fst (cleanup_output_fields deletable keep shp)))))
       \<and> (length (remaining_data_fields keep shp) \<noteq> 0
            \<longrightarrow> fields_to_delete keep shp = initial_fields_to_delete keep shp)"
proof -
  let ?res = "cleanup_output_fields deletable keep shp"
  let ?del0 = "initial_fields_to_delete keep shp"
  have fst_res: "fst ?res = remove_fields deletable (fields_to_delete keep shp) shp"
    by (simp add: cleanup_output_fields_def Let_def)
  have c1: "snd ?res = None \<longleftrightarrow> attr_field_names (fst ?res) \<noteq> []"
    by (simp add: cleanup_output_fields_def Let_def)
  have c2: "snd ?res = Some RuntimeError \<longleftrightarrow> attr_field_names (fst ?res) = []"
    by (simp add: cleanup_output_fields_def Let_def)
  have c3: "attr_field_names (fst ?res) = [] \<longleftrightarrow> attr_field_names shp = []"
  proof
    assume e: "attr_field_names (fst ?res) = []"
    show "attr_field_names shp = []"
    proof (rule ccontr)
      assume "attr_field_names shp \<noteq> []"
      then obtain n where "n \<in> set (attr_field_names shp)" "n \<notin> set (fields_to_delete keep shp)"
        using some_attr_survives [OF d] by blast
      then have "n \<in> set (attr_field_names (fst ?res))"
        unfolding fst_res by (rule attr_survives)
      then show False using e by simp
    qed
  next
    assume "attr_field_names shp = []"
    then show "attr_field_names (fst ?res) = []"
      using attr_remove_subset [of deletable "fields_to_delete keep shp" shp] by (simp add: fst_res)
  qed
  have c4: "\<exists>r. rescued_field ?del0 = Some r
              \<and> r = (case find (\<lambda>p. p \<in> set ?del0) priority_fields of Some p \<Rightarrow> p | None \<Rightarrow> hd ?del0)
              \<and> fields_to_delete keep shp = remove1 r ?del0
              \<and> length (fields_to_delete keep shp) + 1 = length ?del0
              \<and> r \<in> set (attr_field_names (fst ?res))"
    if rem: "length (remaining_data_fields keep shp) = 0" and ne: "?del0 \<noteq> []"
  proof -
    obtain r where r: "rescued_field ?del0 = Some r"
      using rescued_field_nonempty [OF ne] by blast
    have rin: "r \<in> set ?del0" by (rule rescued_field_in [OF r])
    have choice: "r = (case find (\<lambda>p. p \<in> set ?del0) priority_fields of Some p \<Rightarrow> p | None \<Rightarrow> hd ?del0)"
      using r ne by (auto simp: rescued_field_def split: option.splits list.splits)
    have del: "fields_to_delete keep shp = remove1 r ?del0"
      using rem r by (simp add: fields_to_delete_def Let_def rescue_def)
    have "length ?del0 > 0" using ne by simp
    then have len: "length (fields_to_delete keep shp) + 1 = length ?del0"
      using rin by (simp add: del length_remove1)
    have "r \<notin> set (fields_to_delete keep shp)"
      using distinct_initial [OF d, of keep] by (simp add: del)
    moreover have "r \<in> set (attr_field_names shp)"
      using rin initial_subset_attr by blast
    ultimately have "r \<in> set (attr_field_names (fst ?res))"
      unfolding fst_res by (simp add: attr_survives)
    then show ?thesis using r choice del len by blast
  qed
  have c5: "fields_to_delete keep shp = ?del0" if "length (remaining_data_fields keep shp) \<noteq> 0"
    using that by (simp add: fields_to_delete_def Let_def)
  show ?thesis using c1 c2 c3 c4 c5 by blast
qed

theorem cleanup_never_empties_witness:
  "distinct (field_names rescue_file)
   \<and> initial_fields_to_delete [] rescue_file = [''TempX'', ''Label'']
   \<and> remaining_data_fields [] rescue_file = []
   \<and> rescued_field [''TempX'', ''Label''] = Some ''Label''
   \<and> fields_to_delete [] rescue_file = [''TempX'']
   \<and> attr_field_names (fst (cleanup_output_fields all_deletable [] rescue_file)) = [''Label'']
   \<and> snd (cleanup_output_fields all_deletable [] rescue_file) = None"
proof -
  have h: "distinct (field_names rescue_file)"
    by (simp add: rescue_file_def field_names_def)
  note t = cleanup_never_empties [OF h, of all_deletable "[]"]
  have e: "initial_fields_to_delete [] rescue_file = [''TempX'', ''Label'']"
          "remaining_data_fields [] rescue_file = []"
          "rescued_field [''TempX'', ''Label''] = Some ''Label''"
          "fields_to_delete [] rescue_file = [''TempX'']"
          "attr_field_names (fst (cleanup_output_fields all_deletable [] rescue_file)) = [''Label'']"
    by (simp_all add: rescue_file_def cleanup_defs)
  show ?thesis using h t e by simp
qed

lemma map_of_filter_keys:
  "k \<notin> set names \<Longrightarrow> map_of (filter (\<lambda>kv. fst kv \<notin> set names) r) k = map_of r k"
  by (induction r) auto

lemma rows_drop_fields:
  "k \<notin> set names \<Longrightarrow>
   map (\<lambda>r. map_of r k) (fc_rows (drop_fields names shp)) = map (\<lambda>r. map_of r k) (fc_rows shp)"
  by (simp add: drop_fields_def map_of_filter_keys comp_def)

lemma rows_remove_fields:
  assumes "k \<notin> set del"
  shows "map (\<lambda>r. map_of r k) (fc_rows (remove_fields deletable del shp))
         = map (\<lambda>r. map_of r k) (fc_rows shp)"
proof -
  have ind: "set ns \<subseteq> set del \<Longrightarrow>
             map (\<lambda>r. map_of r k) (fc_rows (delete_individually deletable ns s)) = map (\<lambda>r. map_of r k) (fc_rows s)"
    for ns s
    unfolding delete_individually_def
  proof (induction ns arbitrary: s)
    case Nil
    then show ?case by simp
  next
    case (Cons n ns)
    have "k \<notin> set [n]" using Cons.prems assms by auto
    then have step: "map (\<lambda>r. map_of r k)
             (fc_rows (case DeleteField_management deletable s [n] of Inr acc' \<Rightarrow> acc' | Inl _ \<Rightarrow> s))
           = map (\<lambda>r. map_of r k) (fc_rows s)"
      using rows_drop_fields [of k "[n]" s]
      by (auto simp: DeleteField_management_def split: sum.splits if_splits)
    show ?case using Cons step by simp
  qed
  show ?thesis
    using ind [of del shp] rows_drop_fields [OF assms, of shp]
    by (auto simp: remove_fields_def DeleteField_management_def split: sum.splits if_splits)
qed

text \<open>
  Claim C8. Whenever the file has a field named \<open>Foglio\<close>, whatever the theme's keep
  list: \<open>Foglio\<close> is in the keep set, it is not in the deletion list (before or after
  the rescue), the file cleanup leaves still has the field, and every row still holds
  the \<open>Foglio\<close> value it held before.
\<close>

theorem cleanup_preserves_foglio:
  assumes "''Foglio'' \<in> set (field_names shp)"
  shows "''Foglio'' \<in> set (fields_to_keep keep_fields shp)
       \<and> ''Foglio'' \<notin> set (fields_to_delete keep_fields shp)
       \<and> ''Foglio'' \<in> set (field_names (fst (cleanup_output_fields deletable keep_fields shp)))
       \<and> map (\<lambda>r. map_of r ''Foglio'') (fc_rows (fst (cleanup_output_fields deletable keep_fields shp)))
           = map (\<lambda>r. map_of r ''Foglio'') (fc_rows shp)"
proof -
  have k: "''Foglio'' \<in> set (fields_to_keep keep_fields shp)"
    using assms by (simp add: fields_to_keep_def)
  have nd: "''Foglio'' \<notin> set (fields_to_delete keep_fields shp)"
    using foglio_not_in_initial [OF assms] fields_to_delete_subset by blast
  obtain f where f: "f \<in> set (fc_fields shp)" "f_name f = ''Foglio''"
    using assms by (auto simp: field_names_def)
  have "f \<in> set (fc_fields (remove_fields deletable (fields_to_delete keep_fields shp) shp))"
    using f nd by (simp add: field_survives_remove_fields)
  then have s: "''Foglio'' \<in> set (field_names (fst (cleanup_output_fields deletable keep_fields shp)))"
    using f by (force simp: cleanup_output_fields_def Let_def field_names_def)
  have r: "map (\<lambda>r. map_of r ''Foglio'') (fc_rows (fst (cleanup_output_fields deletable keep_fields shp)))
           = map (\<lambda>r. map_of r ''Foglio'') (fc_rows shp)"
    using rows_remove_fields [OF nd] by (simp add: cleanup_output_fields_def Let_def)
  show ?thesis using k nd s r by blast
qed

theorem cleanup_preserves_foglio_witness:
  "''Foglio'' \<in> set (field_names scenario_d_file)
   \<and> ''Foglio'' \<notin> set (fields_to_delete [] scenario_d_file)
   \<and> field_names (fst (cleanup_output_fields all_deletable [] scenario_d_file))
       = [''FID'', ''Shape'', ''Foglio'']
   \<and> map (\<lambda>r. map_of r ''Foglio'') (fc_rows (fst (cleanup_output_fields all_deletable [] scenario_d_file)))
       = [Some (PStr ''348'')]"
proof -
  have h: "''Foglio'' \<in> set (field_names scenario_d_file)"
    by (simp add: scenario_d_file_def field_names_def)
  note t = cleanup_preserves_foglio [OF h, of "[]" all_deletable]
  have e: "field_names (fst (cleanup_output_fields all_deletable [] scenario_d_file))
             = [''FID'', ''Shape'', ''Foglio'']"
    by (simp add: scenario_d_file_def cleanup_defs)
  have "fc_rows scenario_d_file = [[(''FID'', PInt 0), (''Shape'', PNone), (''Foglio'', PStr ''348''),
          (''TempX'', PStr ''t'')]]"
    by (simp add: scenario_d_file_def)
  then show ?thesis using h t e by simp
qed

lemma distinct_pair:
  assumes "distinct xs" "set xs = {a, b}" "a \<noteq> b"
  shows "xs = [a, b] \<or> xs = [b, a]"
proof -
  have "length xs = 2" using distinct_card [OF assms(1)] assms(2,3) by simp
  then obtain x y where "xs = [x, y]"
    by (auto simp: length_Suc_conv numeral_2_eq_2)
  then show ?thesis using assms(2,3) by (auto simp: doubleton_eq_iff)
qed

lemma attr_drop_fields:
  "attr_field_names (drop_fields names shp) = filter (\<lambda>n. n \<notin> set names) (attr_field_names shp)"
proof -
  have "map f_name (filter P (filter (\<lambda>f. f_name f \<notin> set names) xs))
        = filter (\<lambda>n. n \<notin> set names) (map f_name (filter P xs))" for P xs
    by (induction xs) auto
  then show ?thesis by (simp add: attr_field_names_def drop_fields_def)
qed

text \<open>
  Claim C4, as stated, fails on the file of Scenario D: with the keep list
  \<open>["Foglio"]\<close> the deletion list is \<open>["TempX"]\<close>, the field the rescue rule would pick
  from it is \<open>TempX\<close>, and yet \<open>TempX\<close> is deleted: \<open>Foglio\<close> is the only attribute
  field left. The rescue is guarded by \<open>len(remaining_data_fields) == 0\<close>, and
  \<open>Foglio\<close> remains.
\<close>

theorem scenario_d_counterexample:
  "initial_fields_to_delete [''Foglio''] scenario_d_file = [''TempX'']
   \<and> rescued_field [''TempX''] = Some ''TempX''
   \<and> fields_to_delete [''Foglio''] scenario_d_file = [''TempX'']
   \<and> ''TempX'' \<notin> set (field_names (fst (cleanup_output_fields all_deletable [''Foglio''] scenario_d_file)))
   \<and> attr_field_names (fst (cleanup_output_fields all_deletable [''Foglio''] scenario_d_file)) = [''Foglio'']"
  by (simp add: scenario_d_file_def cleanup_defs)

text \<open>
  Claim C4, amended. On every file whose attribute fields are exactly \<open>Foglio\<close> and
  \<open>TempX\<close>, cleanup with the keep list \<open>["Foglio"]\<close> retains \<open>Foglio\<close> and deletes
  \<open>TempX\<close> (when the store lets it go); the rescue rule does not apply, because a kept
  data field remains, and no error is raised.
\<close>

theorem scenario_d_amended:
  assumes d: "distinct (field_names shp)"
    and a: "set (attr_field_names shp) = {''Foglio'', ''TempX''}"
    and del: "deletable ''TempX''"
  shows "remaining_data_fields [''Foglio''] shp = [''Foglio'']
       \<and> fields_to_delete [''Foglio''] shp = [''TempX'']
       \<and> attr_field_names (fst (cleanup_output_fields deletable [''Foglio''] shp)) = [''Foglio'']
       \<and> snd (cleanup_output_fields deletable [''Foglio''] shp) = None"
proof -
  have "''Foglio'' \<in> set (attr_field_names shp)" using a by simp
  then have fg: "''Foglio'' \<in> set (field_names shp)"
    by (auto simp: attr_field_names_def field_names_def)
  have ne: "''Foglio'' \<noteq> ''TempX''" by simp
  have cases: "attr_field_names shp = [''Foglio'', ''TempX''] \<or> attr_field_names shp = [''TempX'', ''Foglio'']"
    by (rule distinct_pair [OF distinct_attr [OF d] a ne])
  have keep: "set (fields_to_keep [''Foglio''] shp) = {''Foglio'', ''FID'', ''Shape''}"
    using fg by (auto simp: fields_to_keep_def system_fields_def)
  have i: "initial_fields_to_delete [''Foglio''] shp = [''TempX'']"
    using cases by (auto simp: initial_fields_to_delete_def keep)
  have r: "remaining_data_fields [''Foglio''] shp = [''Foglio'']"
    using cases by (auto simp: remaining_data_fields_def i system_fields_def)
  have f: "fields_to_delete [''Foglio''] shp = [''TempX'']"
    by (simp add: fields_to_delete_def Let_def r i)
  have rm: "remove_fields deletable [''TempX''] shp = drop_fields [''TempX''] shp"
    using del by (simp add: remove_fields_def DeleteField_management_def)
  have "attr_field_names (drop_fields [''TempX''] shp) = [''Foglio'']"
    using cases by (auto simp: attr_drop_fields)
  then have fin: "attr_field_names (fst (cleanup_output_fields deletable [''Foglio''] shp)) = [''Foglio'']"
    by (simp add: fst_cleanup f rm)
  then have "snd (cleanup_output_fields deletable [''Foglio''] shp) = None"
    by (simp add: snd_cleanup fst_cleanup)
  then show ?thesis using r f fin by blast
qed

theorem scenario_d_amended_witness:
  "distinct (field_names scenario_d_file)
   \<and> set (attr_field_names scenario_d_file) = {''Foglio'', ''TempX''}
   \<and> all_deletable ''TempX''
   \<and> fields_to_delete [''Foglio''] scenario_d_file = [''TempX'']
   \<and> attr_field_names (fst (cleanup_output_fields all_deletable [''Foglio''] scenario_d_file)) = [''Foglio'']
   \<and> snd (cleanup_output_fields all_deletable [''Foglio''] scenario_d_file) = None"
proof -
  have h1: "distinct (field_names scenario_d_file)"
    by (simp add: scenario_d_file_def field_names_def)
  have h2: "set (attr_field_names scenario_d_file) = {''Foglio'', ''TempX''}"
    by (simp add: scenario_d_file_def attr_field_names_def)
  have h3: "all_deletable ''TempX''" by (simp add: all_deletable_def)
  show ?thesis using h1 h2 h3 scenario_d_amended [of scenario_d_file all_deletable, OF h1 h2 h3] by simp
qed

section \<open>Verification of the \<open>Sommerso\<close> flag\<close>

lemma starts_with_self: "starts_with s s"
  by (induction s) auto

lemma py_in_str_self: "py_in_str s s"
  by (cases s) (auto simp: starts_with_self)

lemma upper_sommerso: "py_upper ''Sommerso_'' = ''SOMMERSO_''"
  by (simp add: py_upper_def upper_char_def)

lemma sommerso_rows:
  assumes sf: "find_sommerso_field shp = Some sf"
  shows "\<exists>shp' src tgt.
           process_sommerso_field_optimized shp = Inr shp'
         \<and> resolve_field shp sf = Some src
         \<and> resolve_field shp' ''Sommerso_'' = Some tgt
         \<and> map (\<lambda>r. row_get r tgt) (fc_rows shp')
             = map (\<lambda>r. PStr (sommerso_new_val (row_get r src))) (fc_rows shp)
         \<and> map (\<lambda>r. row_get r src) (fc_rows shp') = map (\<lambda>r. row_get r src) (fc_rows shp)"
proof -
  from find_sommerso_field_Some [OF sf]
  have sfin: "sf \<in> set (field_names shp)" and nosub: "\<not> py_in_str ''SOMMERSO_'' (py_upper sf)"
    by simp_all
  obtain src where src: "resolve_field shp sf = Some src" "py_upper src = py_upper sf"
    using resolve_field_exists [of sf shp] sfin by auto
  have src_ne: "src \<noteq> t" if "py_upper t = ''SOMMERSO_''" for t
    using that nosub src(2) py_in_str_self [of "''SOMMERSO_''"] by auto
  have src_ne_new: "src \<noteq> ''Sommerso_''"
    using src_ne [of "''Sommerso_''"] upper_sommerso by simp
  define shp1 where "shp1 = (if ''SOMMERSO_'' \<notin> set (map fst (existing_fields shp))
      then shp\<lparr>fc_fields := fc_fields shp @ [\<lparr>f_name = ''Sommerso_'', f_type = ''String'', f_length = 10\<rparr>],
               fc_rows := map (\<lambda>r. r @ [(''Sommerso_'', PStr [])]) (fc_rows shp)\<rparr>
      else shp)"
  have add: "(if ''SOMMERSO_'' \<notin> set (map fst (existing_fields shp))
                 then AddField_management shp ''Sommerso_'' 10 else Inr shp) = Inr shp1"
    using existing_fields_keys [of shp]
    by (auto simp: shp1_def AddField_management_def upper_sommerso)
  have names1: "\<exists>ys. field_names shp1 = field_names shp @ ys"
    by (simp add: shp1_def field_names_def)
  have src1: "resolve_field shp1 sf = Some src"
    using src(1) names1 by (auto simp: resolve_field_def find_append_Some)
  have "py_upper ''Sommerso_'' \<in> py_upper ` set (field_names shp1)"
    using existing_fields_keys [of shp] by (auto simp: shp1_def field_names_def upper_sommerso)
  then obtain tgt where tgt: "resolve_field shp1 ''Sommerso_'' = Some tgt" "py_upper tgt = ''SOMMERSO_''"
    using resolve_field_exists [of "''Sommerso_''" shp1] upper_sommerso by auto
  have ne: "src \<noteq> tgt" using src_ne [OF tgt(2)] .
  define shp' where "shp' = fst (UpdateCursor (\<lambda>v. Inr (sommerso_new_val v)) shp1 sf ''Sommerso_'')"
  have res: "process_sommerso_field_optimized shp = Inr shp'"
    using sf add by (simp add: process_sommerso_field_optimized_def shp'_def)
  have rows': "fc_rows shp' = map (\<lambda>r. row_set (row_set r src (row_get r src)) tgt
                                      (PStr (sommerso_new_val (row_get r src)))) (fc_rows shp1)"
    by (simp add: shp'_def UpdateCursor_def src1 tgt(1) update_rows_total)
  have fields': "fc_fields shp' = fc_fields shp1"
    by (simp add: shp'_def UpdateCursor_def src1 tgt(1) update_rows_total)
  have tgt': "resolve_field shp' ''Sommerso_'' = Some tgt"
    using tgt(1) fields' by (simp add: resolve_field_def field_names_def)
  have get1: "map (\<lambda>r. row_get r src) (fc_rows shp1) = map (\<lambda>r. row_get r src) (fc_rows shp)"
    using src_ne_new by (simp add: shp1_def comp_def row_get_append_other)
  have g: "map (\<lambda>r. g (row_get r src)) (fc_rows shp1) = map (\<lambda>r. g (row_get r src)) (fc_rows shp)" for g :: "pyval \<Rightarrow> pyval"
    using arg_cong [OF get1, of "map g"] by (simp add: comp_def)
  have a: "map (\<lambda>r. row_get r tgt) (fc_rows shp')
             = map (\<lambda>r. PStr (sommerso_new_val (row_get r src))) (fc_rows shp)"
    using g [of "\<lambda>v. PStr (sommerso_new_val v)"]
    by (simp add: rows' comp_def row_get_set_same)
  have b: "map (\<lambda>r. row_get r src) (fc_rows shp') = map (\<lambda>r. row_get r src) (fc_rows shp)"
    using ne get1 by (simp add: rows' comp_def row_get_set_other row_get_set_same)
  show ?thesis using res src(1) tgt' a b by blast
qed

lemma sommerso_new_val_cases:
  "sommerso_new_val v =
     (if v \<in> set [PInt 1, PFloat (Fin 1), PStr ''1'', PStr ''1.0''] then ''SI''
      else if v \<in> set [PInt 2, PFloat (Fin 2), PStr ''2'', PStr ''2.0''] then ''NO''
      else '''')"
proof (cases v)
  case (PFloat f)
  then show ?thesis
    by (cases f) (auto simp: sommerso_new_val_def py_in_list_def py_eq_def key_of_def)
qed (auto simp: sommerso_new_val_def py_in_list_def py_eq_def key_of_def)

lemma nat_str_digits: "set (nat_str n) \<subseteq> set ''0123456789''"
proof (induction n rule: nat_str.induct)
  case (1 n)
  have d: "digit_char m \<in> set ''0123456789''" for m
    unfolding digit_char_def by (rule nth_mem) simp
  show ?case
  proof (cases "n < 10")
    case True
    then show ?thesis using d [of n] by (subst nat_str.simps) simp
  next
    case False
    then show ?thesis using 1 d [of "n mod 10"] by (subst nat_str.simps) simp
  qed
qed

lemma nat_str_nonempty: "nat_str n \<noteq> []"
  by (subst nat_str.simps) simp

lemma digit_char_eq:
  assumes "n < 10" "m < 10"
  shows "digit_char n = digit_char m \<longleftrightarrow> n = m"
proof -
  have "distinct ''0123456789''" by simp
  then show ?thesis
    using assms nth_eq_iff_index_eq [of "''0123456789''" n m]
    by (simp add: digit_char_def)
qed

lemma nat_str_single:
  assumes "m < 10"
  shows "nat_str n = [digit_char m] \<longleftrightarrow> n = m"
proof (cases "n < 10")
  case True
  then show ?thesis
    using digit_char_eq [OF True assms] by (subst nat_str.simps) simp
next
  case False
  then have "length (nat_str n) \<ge> 2"
    using nat_str_nonempty [of "n div 10"]
    by (subst nat_str.simps) (cases "nat_str (n div 10)"; simp)
  then show ?thesis using False assms by auto
qed

lemma nat_str_one: "nat_str n = ''1'' \<longleftrightarrow> n = 1"
  using nat_str_single [of 1 n] by (simp add: digit_char_def)

lemma nat_str_two: "nat_str n = ''2'' \<longleftrightarrow> n = 2"
  using nat_str_single [of 2 n] by (simp add: digit_char_def)

lemma nat_str_no_point: "nat_str n \<noteq> [a, CHR ''.'', b]"
proof
  assume "nat_str n = [a, CHR ''.'', b]"
  then have "CHR ''.'' \<in> set (nat_str n)" by simp
  then show False using nat_str_digits [of n] by auto
qed

lemma py_int_str_one: "py_int_str i = ''1'' \<longleftrightarrow> i = 1"
  by (auto simp: py_int_str_def nat_str_one)

lemma py_int_str_two: "py_int_str i = ''2'' \<longleftrightarrow> i = 2"
  by (auto simp: py_int_str_def nat_str_two)

lemma py_int_str_no_point: "py_int_str i \<noteq> [a, CHR ''.'', b]"
proof
  assume "py_int_str i = [a, CHR ''.'', b]"
  then have "CHR ''.'' \<in> set (py_int_str i)" by simp
  then show False using nat_str_digits [of "nat i"] nat_str_digits [of "nat (- i)"]
    by (auto simp: py_int_str_def split: if_splits)
qed

lemma som_int: "som L (PInt i) = sommerso_new_val (PInt i)"
  using py_int_str_no_point [of i "CHR ''1''" "CHR ''0''"] py_int_str_no_point [of i "CHR ''2''" "CHR ''0''"]
  by (auto simp: som_def sommerso_new_val_def py_str_def py_in_list_def py_eq_def key_of_def
        py_int_str_one py_int_str_two)

lemma som_str: "som L (PStr s) = sommerso_new_val (PStr s)"
  by (auto simp: som_def sommerso_new_val_def py_str_def py_in_list_def py_eq_def key_of_def)

lemma som_none: "som L PNone = sommerso_new_val PNone"
  by (simp add: som_def sommerso_new_val_def py_str_def py_in_list_def py_eq_def key_of_def)

lemma som_float:
  "som L (PFloat f) =
     (if str_of_float L f \<in> set [''1'', ''1.0''] \<or> f = Fin 1 then ''SI''
      else if str_of_float L f \<in> set [''2'', ''2.0''] \<or> f = Fin 2 then ''NO''
      else '''')"
  by (cases f) (auto simp: som_def py_str_def py_eq_def key_of_def)

text \<open>
  Claim C5. The value written for a row is \<open>SI\<close> exactly for the source values \<open>1\<close>
  (integer or float), \<open>"1"\<close> and \<open>"1.0"\<close>, \<open>NO\<close> exactly for \<open>2\<close>, \<open>"2"\<close> and
  \<open>"2.0"\<close>, and the empty string for every other value, \<open>None\<close> included. When the
  file has a \<open>SOMMERSO\<close> field, \<open>process_sommerso_field_optimized\<close> returns, and in the
  file it leaves every row holds in \<open>Sommerso_\<close> the value computed from that row's
  source value, which is itself unchanged. The \<open>_som\<close> of the open-library pipeline
  computes the same value for \<open>None\<close>, every integer and every string; on a float it
  depends on how \<open>str\<close> prints it, as stated.
\<close>

theorem sommerso_tri_state:
  "sommerso_new_val v =
     (if v \<in> set [PInt 1, PFloat (Fin 1), PStr ''1'', PStr ''1.0''] then ''SI''
      else if v \<in> set [PInt 2, PFloat (Fin 2), PStr ''2'', PStr ''2.0''] then ''NO''
      else '''')
   \<and> (find_sommerso_field shp = Some sf \<longrightarrow>
        (\<exists>shp' src tgt.
           process_sommerso_field_optimized shp = Inr shp'
         \<and> resolve_field shp sf = Some src
         \<and> resolve_field shp' ''Sommerso_'' = Some tgt
         \<and> map (\<lambda>r. row_get r tgt) (fc_rows shp')
             = map (\<lambda>r. PStr (sommerso_new_val (row_get r src))) (fc_rows shp)
         \<and> map (\<lambda>r. row_get r src) (fc_rows shp') = map (\<lambda>r. row_get r src) (fc_rows shp)))
   \<and> som L PNone = sommerso_new_val PNone
   \<and> som L (PInt i) = sommerso_new_val (PInt i)
   \<and> som L (PStr s) = sommerso_new_val (PStr s)
   \<and> som L (PFloat f) =
        (if str_of_float L f \<in> set [''1'', ''1.0''] \<or> f = Fin 1 then ''SI''
         else if str_of_float L f \<in> set [''2'', ''2.0''] \<or> f = Fin 2 then ''NO''
         else '''')"
  using sommerso_new_val_cases [of v] sommerso_rows [of shp sf]
    som_none [of L] som_int [of L i] som_str [of L s] som_float [of L f]
  by blast

theorem sommerso_tri_state_witness:
  "find_sommerso_field scenario_c_file = Some ''Sommerso''
   \<and> (case process_sommerso_field_optimized scenario_c_file of
        Inl e \<Rightarrow> False
      | Inr shp' \<Rightarrow>
          map (\<lambda>r. row_get r ''Sommerso_'') (fc_rows shp')
          = [PStr ''SI'', PStr ''SI'', PStr ''SI'', PStr ''NO'', PStr ''NO'', PStr ''NO'',
             PStr '''', PStr '''', PStr ''''])
   \<and> map (som dec_lib) [PInt 1, PStr ''1'', PStr ''1.0'', PFloat (Fin 1)] = [''SI'', ''SI'', ''SI'', ''SI'']
   \<and> map (som dec_lib) [PInt 2, PStr ''2'', PStr ''2.0'', PFloat (Fin 2)] = [''NO'', ''NO'', ''NO'', ''NO'']
   \<and> map (som dec_lib) [PNone, PStr ''x'', PInt 3] = ['''', '''', '''']"
proof -
  have h: "find_sommerso_field scenario_c_file = Some ''Sommerso''"
    by code_simp
  have e: "(case process_sommerso_field_optimized scenario_c_file of
        Inl e \<Rightarrow> False
      | Inr shp' \<Rightarrow>
          map (\<lambda>r. row_get r ''Sommerso_'') (fc_rows shp')
          = [PStr ''SI'', PStr ''SI'', PStr ''SI'', PStr ''NO'', PStr ''NO'', PStr ''NO'',
             PStr '''', PStr '''', PStr ''''])"
    by code_simp
  have p: "map (som dec_lib) [PInt 1, PStr ''1'', PStr ''1.0'', PFloat (Fin 1)] = [''SI'', ''SI'', ''SI'', ''SI'']"
     "map (som dec_lib) [PInt 2, PStr ''2'', PStr ''2.0'', PFloat (Fin 2)] = [''NO'', ''NO'', ''NO'', ''NO'']"
     "map (som dec_lib) [PNone, PStr ''x'', PInt 3] = ['''', '''', '''']"
    by code_simp+
  show ?thesis
    using h e p sommerso_tri_state [of "PInt 1" scenario_c_file "''Sommerso''" dec_lib 1 "''1''" "Fin 1"]
    by simp
qed

section \<open>Verification of the domain registry\<close>

lemma find_Some_mem: "find P xs = Some x \<Longrightarrow> x \<in> set xs \<and> P x"
  by (induction xs) (auto split: if_splits)

lemma find_None_mem: "find P xs = None \<Longrightarrow> x \<in> set xs \<Longrightarrow> \<not> P x"
  by (induction xs) (auto split: if_splits)

lemma key_of_str: "key_of (PStr s) = KStr s"
  by (simp add: key_of_def)

lemma key_of_int: "key_of (PInt i) = KNum (of_int i)"
  by (simp add: key_of_def)

lemma key_of_fin: "key_of (PFloat (Fin r)) = KNum r"
  by (simp add: key_of_def)

lemma map_of_foldl_dict_set:
  "map_of (foldl (\<lambda>m key. dict_set m key d) m ks) k = (if k \<in> set ks then Some d else map_of m k)"
  by (induction ks arbitrary: m) (auto simp: dict_set_def update_conv')

lemma map_of_add_row:
  "map_of (add_row L m row) k
   = (if k \<in> set (keys_of_row L row) then Some (desc_clean L (snd row)) else map_of m k)"
  by (simp add: add_row_def map_of_foldl_dict_set)

lemma map_of_foldl_add_row:
  "map_of (foldl (add_row L) m rows) k
   = (case find (\<lambda>row. k \<in> set (keys_of_row L row)) (rev rows) of
        Some row \<Rightarrow> Some (desc_clean L (snd row))
      | None \<Rightarrow> map_of m k)"
proof (induction rows arbitrary: m)
  case Nil
  then show ?case by simp
next
  case (Cons r rs)
  show ?case
  proof (cases "find (\<lambda>row. k \<in> set (keys_of_row L row)) (rev rs)")
    case None
    then show ?thesis
      using Cons [of "add_row L m r"]
      by (simp add: find_append_None map_of_add_row)
  next
    case (Some row)
    then show ?thesis
      using Cons [of "add_row L m r"] find_append_Some [OF Some, of "[r]"]
      by simp
  qed
qed

text \<open>The last row of the table that stores a key gives the key its description.\<close>

lemma map_of_build_code_map:
  "map_of (build_code_map L rows) k
   = map_option (\<lambda>row. desc_clean L (snd row))
       (find (\<lambda>row. k \<in> set (keys_of_row L row)) (rev rows))"
  using map_of_foldl_add_row [of L "[]" rows k]
  by (simp add: build_code_map_def split: option.splits)

lemma build_code_map_hit:
  assumes "map_of (build_code_map L rows) k = Some d"
  shows "\<exists>row \<in> set rows. k \<in> set (keys_of_row L row) \<and> d = desc_clean L (snd row)"
proof -
  from assms obtain row where
    "find (\<lambda>row. k \<in> set (keys_of_row L row)) (rev rows) = Some row" "d = desc_clean L (snd row)"
    by (auto simp: map_of_build_code_map)
  then show ?thesis using find_Some_mem [of _ "rev rows" row] by fastforce
qed

lemma build_code_map_present:
  assumes "row \<in> set rows" "k \<in> set (keys_of_row L row)"
  shows "map_of (build_code_map L rows) k \<noteq> None"
proof -
  have "find (\<lambda>row. k \<in> set (keys_of_row L row)) (rev rows) \<noteq> None"
  proof
    assume "find (\<lambda>row. k \<in> set (keys_of_row L row)) (rev rows) = None"
    from find_None_mem [OF this, of row] show False using assms by simp
  qed
  then show ?thesis by (simp add: map_of_build_code_map)
qed

lemma build_code_map_absent:
  assumes "list_all (\<lambda>row. k \<notin> set (keys_of_row L row)) rows"
  shows "map_of (build_code_map L rows) k = None"
proof -
  have "find (\<lambda>row. k \<in> set (keys_of_row L row)) (rev rows) = None"
    using assms by (auto simp: find_None_iff list_all_iff)
  then show ?thesis by (simp add: map_of_build_code_map)
qed

lemma dict_get_Some:
  "dict_get d v = Some x \<longleftrightarrow> key_of v \<noteq> KNaN \<and> map_of d (key_of v) = Some x"
  by (simp add: dict_get_def)

lemma dict_get_str: "dict_get d (PStr s) = map_of d (KStr s)"
  by (simp add: dict_get_def key_of_def)

lemma dict_get_int: "dict_get d (PInt i) = map_of d (KNum (of_int i))"
  by (simp add: dict_get_def key_of_def)

lemma key_of_probe: "key_of v \<in> set (probe_keys L v)"
  by (simp add: probe_keys_def)

lemma str_probe: "KStr (py_strip (py_str L v)) \<in> set (probe_keys L v)"
  by (simp add: probe_keys_def)

text \<open>A value returned by the lookup is the value of one of the probed keys.\<close>

lemma mapped_value_from_probe:
  assumes "mapped_value L cm v = Inr d" "d \<noteq> []"
  shows "\<exists>k \<in> set (probe_keys L v). map_of cm k = Some d"
  using assms
  by (auto simp: mapped_value_def Let_def probe_keys_def dict_get_def key_of_str
      split: if_splits option.splits sum.splits)

lemma mapped_value_two_probes:
  assumes "v \<noteq> PNone"
    and "dict_get cm v \<noteq> None \<or> dict_get cm (PStr (py_strip (py_str L v))) \<noteq> None"
  shows "\<exists>k \<in> set (probe_keys L v). \<exists>d. map_of cm k = Some d \<and> mapped_value L cm v = Inr d"
proof (cases "dict_get cm v")
  case (Some d)
  then have "map_of cm (key_of v) = Some d" by (simp add: dict_get_Some)
  moreover have "mapped_value L cm v = Inr d"
    using Some assms(1) by (simp add: mapped_value_def)
  ultimately show ?thesis using key_of_probe by blast
next
  case None
  then obtain d where d: "dict_get cm (PStr (py_strip (py_str L v))) = Some d"
    using assms(2) by auto
  then have "map_of cm (KStr (py_strip (py_str L v))) = Some d" by (simp add: dict_get_str)
  moreover have "mapped_value L cm v = Inr d"
    using None d assms(1) by (simp add: mapped_value_def Let_def)
  ultimately show ?thesis using str_probe by blast
qed

lemma mapped_value_miss:
  assumes "list_all (\<lambda>k. map_of cm k = None) (probe_keys L v)"
    and "float_of_str L (py_strip (py_str L v)) \<noteq> Some PosInf"
    and "float_of_str L (py_strip (py_str L v)) \<noteq> Some NegInf"
  shows "mapped_value L cm v = Inr ''''"
proof (cases "float_of_str L (py_strip (py_str L v))")
  case None
  then show ?thesis
    using assms(1)
    by (auto simp: mapped_value_def Let_def probe_keys_def dict_get_def key_of_str
        split: option.splits)
next
  case (Some f)
  then show ?thesis
    using assms
    by (cases f)
       (auto simp: mapped_value_def Let_def probe_keys_def dict_get_def py_int_of_float_def
          key_of_str split: option.splits)
qed

lemma mapped_value_none: "mapped_value L cm PNone = Inr ''''"
  by (simp add: mapped_value_def)

text \<open>The only exception that leaves the lookup is the \<open>OverflowError\<close> of an infinite float.\<close>

lemma mapped_value_error:
  assumes "mapped_value L cm v = Inl e"
  shows "e = OverflowError
       \<and> (float_of_str L (py_strip (py_str L v)) = Some PosInf
          \<or> float_of_str L (py_strip (py_str L v)) = Some NegInf)"
proof -
  from assms obtain f where f: "float_of_str L (py_strip (py_str L v)) = Some f"
      and i: "py_int_of_float f = Inl e" "e \<noteq> ValueError"
    by (auto simp: mapped_value_def Let_def split: if_splits option.splits sum.splits)
  from i show ?thesis using f
    by (cases f) (auto simp: py_int_of_float_def)
qed

lemma row_keys_trimmed:
  "row_keys L code = Inr ks \<Longrightarrow> KStr (py_strip (py_str L code)) \<in> set ks"
  by (auto simp: row_keys_def Let_def split: if_splits option.splits sum.splits)

lemma row_keys_numeric:
  assumes "row_keys L code = Inr ks" "numeric_looking (py_str L code)"
    and "float_of_str L (py_str L code) = Some f" "py_int_of_float f = Inr i"
  shows "ks = [KStr (py_strip (py_str L code)), key_of code, key_of (PFloat f), key_of (PInt i)]"
  using assms by (simp add: row_keys_def Let_def)

lemma int_of_float_fin: "py_int_of_float f = Inr i \<Longrightarrow> \<exists>r. f = Fin r"
  by (cases f) (auto simp: py_int_of_float_def)

lemma representation_stored:
  assumes nn: "code \<noteq> PNone"
    and ks: "row_keys L code = Inr ks"
    and rep: "v \<in> set (representations L code)"
  shows "v \<noteq> PNone
       \<and> ((key_of v \<noteq> KNaN \<and> key_of v \<in> set ks) \<or> KStr (py_strip (py_str L v)) \<in> set ks)"
proof -
  have split: "v = code \<or> v = PStr (py_strip (py_str L code))
      \<or> (\<exists>f i. numeric_looking (py_str L code) \<and> float_of_str L (py_str L code) = Some f
             \<and> py_int_of_float f = Inr i \<and> (v = PFloat f \<or> v = PInt i))"
  proof (cases "numeric_looking (py_str L code)")
    case False
    then show ?thesis using rep by (auto simp: representations_def)
  next
    case True
    show ?thesis
    proof (cases "float_of_str L (py_str L code)")
      case None
      then show ?thesis using rep True by (auto simp: representations_def)
    next
      case (Some f)
      then show ?thesis using rep True
        by (cases "py_int_of_float f") (auto simp: representations_def)
    qed
  qed
  then consider (raw) "v = code"
    | (trimmed) "v = PStr (py_strip (py_str L code))"
    | (num) f i where "numeric_looking (py_str L code)" "float_of_str L (py_str L code) = Some f"
        "py_int_of_float f = Inr i" "v = PFloat f \<or> v = PInt i"
    by blast
  then show ?thesis
  proof cases
    case raw
    then show ?thesis using nn row_keys_trimmed [OF ks] by simp
  next
    case trimmed
    then show ?thesis using row_keys_trimmed [OF ks] by (simp add: key_of_str)
  next
    case num
    obtain r where r: "f = Fin r" using int_of_float_fin [OF num(3)] by blast
    have "ks = [KStr (py_strip (py_str L code)), key_of code, key_of (PFloat f), key_of (PInt i)]"
      by (rule row_keys_numeric [OF ks num(1,2,3)])
    then show ?thesis using num(4) r by (auto simp: key_of_fin key_of_int)
  qed
qed

lemma read_domain_table:
  assumes "ts (domain_table_path e domain_file gp) = Some t"
    and "find_desc_field pattern t = Some desc_field"
    and "desc_field \<noteq> []"
    and "code_field \<in> set (field_names t)"
  shows "load_domain_mappings L e ts domain_file code_field pattern gp
         = build_code_map L (table_rows t code_field desc_field)"
  using assms by (simp add: load_domain_mappings_def read_domain_def)

lemma update_rows_length: "length (fst (update_rows f src tgt rs)) = length rs"
  by (induction rs) (auto split: sum.splits prod.splits)

lemma update_rows_nth:
  assumes "i < length rs"
    and "list_all (\<lambda>v. \<not> isl (f v)) (take (Suc i) (map (\<lambda>r. row_get r src) rs))"
    and "f (row_get (rs ! i) src) = Inr d"
  shows "row_get (fst (update_rows f src tgt rs) ! i) tgt = PStr d"
  using assms
proof (induction rs arbitrary: i)
  case Nil
  then show ?case by simp
next
  case (Cons r rs)
  from Cons.prems(2) obtain v where v: "f (row_get r src) = Inr v"
    by (cases "f (row_get r src)") auto
  show ?case
  proof (cases i)
    case 0
    then show ?thesis
      using v Cons.prems(3) by (simp add: row_get_set_same split: prod.splits)
  next
    case (Suc j)
    then have "row_get (fst (update_rows f src tgt rs) ! j) tgt = PStr d"
      using Cons.prems by (intro Cons.IH) simp_all
    then show ?thesis using v Suc by (auto split: prod.splits)
  qed
qed

lemma ensure_field:
  "\<exists>shp1 tgt.
     (if py_upper field_name \<notin> set (map fst (existing_fields shp))
      then AddField_management shp field_name n else Inr shp) = Inr shp1
   \<and> resolve_field shp1 field_name = Some tgt
   \<and> length (fc_rows shp1) = length (fc_rows shp)
   \<and> (\<forall>name src. resolve_field shp name = Some src \<longrightarrow>
          resolve_field shp1 name = Some src
        \<and> map (\<lambda>r. row_get r src) (fc_rows shp1) = map (\<lambda>r. row_get r src) (fc_rows shp))"
proof (cases "py_upper field_name \<in> py_upper ` set (field_names shp)")
  case True
  then obtain tgt where "resolve_field shp field_name = Some tgt"
    using resolve_field_exists by blast
  then show ?thesis using True existing_fields_keys [of shp] by auto
next
  case False
  define shp1 where "shp1 =
    shp\<lparr>fc_fields := fc_fields shp @ [\<lparr>f_name = field_name, f_type = ''String'', f_length = n\<rparr>],
        fc_rows := map (\<lambda>r. r @ [(field_name, PStr [])]) (fc_rows shp)\<rparr>"
  have add: "(if py_upper field_name \<notin> set (map fst (existing_fields shp))
      then AddField_management shp field_name n else Inr shp) = Inr shp1"
    using False existing_fields_keys [of shp]
    by (auto simp: AddField_management_def shp1_def)
  have names1: "field_names shp1 = field_names shp @ [field_name]"
    by (simp add: shp1_def field_names_def)
  have "find (\<lambda>n. py_upper n = py_upper field_name) (field_names shp) = None"
  proof (rule ccontr)
    assume "find (\<lambda>n. py_upper n = py_upper field_name) (field_names shp) \<noteq> None"
    then obtain x where "find (\<lambda>n. py_upper n = py_upper field_name) (field_names shp) = Some x"
      by auto
    from find_Some_mem [OF this] have "py_upper field_name \<in> py_upper ` set (field_names shp)"
      by (metis imageI)
    then show False using False by simp
  qed
  then have tgt: "resolve_field shp1 field_name = Some field_name"
    by (simp add: resolve_field_def names1 find_append_None)
  have keep: "resolve_field shp1 name = Some src
      \<and> map (\<lambda>r. row_get r src) (fc_rows shp1) = map (\<lambda>r. row_get r src) (fc_rows shp)"
    if "resolve_field shp name = Some src" for name src
  proof -
    have "src \<in> set (field_names shp)" using resolve_field_upper [OF that] by simp
    then have "src \<noteq> field_name" using False by auto
    then have "map (\<lambda>r. row_get r src) (fc_rows shp1) = map (\<lambda>r. row_get r src) (fc_rows shp)"
      by (simp add: shp1_def comp_def row_get_append_other)
    moreover have "resolve_field shp1 name = Some src"
      using that by (simp add: resolve_field_def names1 find_append_Some)
    ultimately show ?thesis by simp
  qed
  have "length (fc_rows shp1) = length (fc_rows shp)" by (simp add: shp1_def)
  then show ?thesis using add tgt keep by blast
qed

lemma apply_domain_mapping_row:
  assumes ne: "cm \<noteq> []"
    and src: "resolve_field shp source_field = Some src"
    and i: "i < length (fc_rows shp)"
    and ok: "list_all (\<lambda>v. \<not> isl (mapped_value L cm v))
               (take (Suc i) (map (\<lambda>r. row_get r src) (fc_rows shp)))"
    and d: "mapped_value L cm (row_get (fc_rows shp ! i) src) = Inr d"
  shows "\<exists>shp' log tgt.
           apply_domain_mapping L shp field_name source_field cm = Inr (shp', log)
         \<and> resolve_field shp' field_name = Some tgt
         \<and> length (fc_rows shp') = length (fc_rows shp)
         \<and> row_get (fc_rows shp' ! i) tgt = PStr d"
proof -
  obtain shp1 tgt where
    add: "(if py_upper field_name \<notin> set (map fst (existing_fields shp))
           then AddField_management shp field_name 255 else Inr shp) = Inr shp1"
    and tgt: "resolve_field shp1 field_name = Some tgt"
    and len: "length (fc_rows shp1) = length (fc_rows shp)"
    and src1: "resolve_field shp1 source_field = Some src"
    and vals: "map (\<lambda>r. row_get r src) (fc_rows shp1) = map (\<lambda>r. row_get r src) (fc_rows shp)"
    using ensure_field [of field_name shp 255] src by blast
  have i1: "i < length (fc_rows shp1)" using i len by simp
  have "row_get (fc_rows shp1 ! i) src = row_get (fc_rows shp ! i) src"
    using nth_map [of i "fc_rows shp1" "\<lambda>r. row_get r src"] nth_map [of i "fc_rows shp" "\<lambda>r. row_get r src"]
      i i1 vals by simp
  then have d1: "mapped_value L cm (row_get (fc_rows shp1 ! i) src) = Inr d" using d by simp
  have ok1: "list_all (\<lambda>v. \<not> isl (mapped_value L cm v))
               (take (Suc i) (map (\<lambda>r. row_get r src) (fc_rows shp1)))"
    using ok vals by simp
  obtain rows' e where u: "update_rows (mapped_value L cm) src tgt (fc_rows shp1) = (rows', e)"
    by (cases "update_rows (mapped_value L cm) src tgt (fc_rows shp1)") auto
  have rows': "rows' = fst (update_rows (mapped_value L cm) src tgt (fc_rows shp1))"
    by (simp add: u)
  have cur: "UpdateCursor (mapped_value L cm) shp1 source_field field_name
             = (shp1\<lparr>fc_rows := rows'\<rparr>, e)"
    by (simp add: UpdateCursor_def src1 tgt u)
  have val: "row_get (rows' ! i) tgt = PStr d"
    unfolding rows' by (rule update_rows_nth [OF i1 ok1 d1])
  have l: "length rows' = length (fc_rows shp)"
    unfolding rows' by (simp add: update_rows_length len)
  have res: "\<exists>log. apply_domain_mapping L shp field_name source_field cm
                = Inr (shp1\<lparr>fc_rows := rows'\<rparr>, log)"
    using ne add cur by (cases e) (simp_all add: apply_domain_mapping_def)
  have "resolve_field (shp1\<lparr>fc_rows := rows'\<rparr>) field_name = Some tgt"
    using tgt by (simp add: resolve_field_def field_names_def)
  then show ?thesis using res val l by auto
qed

lemma mapped_value_first_hit:
  assumes "v \<noteq> PNone" "mapped_value L cm v = Inr d"
  shows "d = (case find (\<lambda>k. k \<noteq> KNaN \<and> map_of cm k \<noteq> None) (probe_keys L v) of
                Some k \<Rightarrow> (case map_of cm k of Some x \<Rightarrow> x | None \<Rightarrow> [])
              | None \<Rightarrow> [])"
proof (cases "dict_get cm v")
  case (Some x)
  then have "d = x" using assms by (simp add: mapped_value_def)
  moreover have "key_of v \<noteq> KNaN \<and> map_of cm (key_of v) = Some x"
    using Some by (simp add: dict_get_Some)
  ultimately show ?thesis by (simp add: probe_keys_def)
next
  case None
  then have p1: "\<not> (key_of v \<noteq> KNaN \<and> map_of cm (key_of v) \<noteq> None)"
    by (auto simp: dict_get_def split: if_splits)
  let ?s = "py_strip (py_str L v)"
  show ?thesis
  proof (cases "map_of cm (KStr ?s)")
    case (Some x)
    then have "d = x" using assms None by (simp add: mapped_value_def Let_def dict_get_str)
    then show ?thesis using p1 Some by (auto simp: probe_keys_def)
  next
    case s: None
    show ?thesis
    proof (cases "float_of_str L ?s")
      case None
      then have "d = []" using assms \<open>dict_get cm v = None\<close> s
        by (simp add: mapped_value_def Let_def dict_get_str)
      then show ?thesis using p1 s None by (auto simp: probe_keys_def)
    next
      case (Some f)
      show ?thesis
      proof (cases "dict_get cm (PFloat f)")
        case (Some x)
        then have "d = x" using assms \<open>dict_get cm v = None\<close> s \<open>float_of_str L ?s = Some f\<close>
          by (simp add: mapped_value_def Let_def dict_get_str)
        moreover have "key_of (PFloat f) \<noteq> KNaN \<and> map_of cm (key_of (PFloat f)) = Some x"
          using Some by (simp add: dict_get_Some)
        ultimately show ?thesis using p1 s \<open>float_of_str L ?s = Some f\<close>
          by (auto simp: probe_keys_def)
      next
        case f3: None
        then have p3: "\<not> (key_of (PFloat f) \<noteq> KNaN \<and> map_of cm (key_of (PFloat f)) \<noteq> None)"
          by (auto simp: dict_get_def split: if_splits)
        show ?thesis
        proof (cases "py_int_of_float f")
          case (Inl e)
          then have "d = []" using assms \<open>dict_get cm v = None\<close> s \<open>float_of_str L ?s = Some f\<close> f3
            by (simp add: mapped_value_def Let_def dict_get_str split: if_splits)
          then show ?thesis using p1 s \<open>float_of_str L ?s = Some f\<close> p3 Inl
            by (auto simp: probe_keys_def)
        next
          case (Inr i)
          have "d = (case map_of cm (KNum (of_int i)) of Some x \<Rightarrow> x | None \<Rightarrow> [])"
            using assms \<open>dict_get cm v = None\<close> s \<open>float_of_str L ?s = Some f\<close> f3 Inr
            by (simp add: mapped_value_def Let_def dict_get_str dict_get_int split: option.splits)
          then show ?thesis using p1 s \<open>float_of_str L ?s = Some f\<close> p3 Inr
            by (auto simp: probe_keys_def key_of_int split: option.splits)
        qed
      qed
    qed
  qed
qed

lemma stored_iff:
  "(map_of (build_code_map L rows) k \<noteq> None)
   = list_ex (\<lambda>row. k \<in> set (keys_of_row L row)) rows"
proof
  assume "map_of (build_code_map L rows) k \<noteq> None"
  then obtain d where "map_of (build_code_map L rows) k = Some d" by auto
  from build_code_map_hit [OF this] show "list_ex (\<lambda>row. k \<in> set (keys_of_row L row)) rows"
    by (auto simp: list_ex_iff)
next
  assume "list_ex (\<lambda>row. k \<in> set (keys_of_row L row)) rows"
  then obtain row where "row \<in> set rows" "k \<in> set (keys_of_row L row)"
    by (auto simp: list_ex_iff)
  then show "map_of (build_code_map L rows) k \<noteq> None"
    by (rule build_code_map_present)
qed

lemma first_stored_key_map:
  "first_stored_key L rows v
   = find (\<lambda>k. k \<noteq> KNaN \<and> map_of (build_code_map L rows) k \<noteq> None) (probe_keys L v)"
  by (simp only: first_stored_key_def stored_iff)

lemma lookup_first_stored:
  assumes mem: "(code, desc) \<in> set rows"
    and nn: "code \<noteq> PNone" "desc \<noteq> PNone"
    and ks: "row_keys L code = Inr ks"
    and rep: "v \<in> set (representations L code)"
  shows "\<exists>k win. first_stored_key L rows v = Some k
          \<and> last_storing_row L rows k = Some win
          \<and> mapped_value L (build_code_map L rows) v = Inr (desc_clean L (snd win))"
proof -
  let ?cm = "build_code_map L rows"
  let ?P = "\<lambda>k. k \<noteq> KNaN \<and> map_of ?cm k \<noteq> None"
  have own: "keys_of_row L (code, desc) = ks"
    using nn ks by (simp add: keys_of_row_def)
  have present: "map_of ?cm k \<noteq> None" if "k \<in> set ks" for k
    using build_code_map_present [OF mem, of k L] that own by simp
  from representation_stored [OF nn(1) ks rep]
  have v: "v \<noteq> PNone"
    and st: "(key_of v \<noteq> KNaN \<and> key_of v \<in> set ks) \<or> KStr (py_strip (py_str L v)) \<in> set ks"
    by simp_all
  have ex: "\<exists>k \<in> set (probe_keys L v). ?P k"
  proof (cases "key_of v \<noteq> KNaN \<and> key_of v \<in> set ks")
    case True
    then show ?thesis using present key_of_probe [of v L] by blast
  next
    case False
    then have "KStr (py_strip (py_str L v)) \<in> set ks" using st by blast
    then show ?thesis using present str_probe [of L v] by blast
  qed
  have "find ?P (probe_keys L v) \<noteq> None"
  proof
    assume n: "find ?P (probe_keys L v) = None"
    from ex obtain k where "k \<in> set (probe_keys L v)" "?P k" by blast
    then show False using find_None_mem [OF n, of k] by simp
  qed
  then obtain k where fk: "find ?P (probe_keys L v) = Some k" by auto
  from find_Some_mem [OF fk] obtain x where x: "map_of ?cm k = Some x" by auto
  then obtain win where win: "last_storing_row L rows k = Some win" "x = desc_clean L (snd win)"
    by (auto simp: map_of_build_code_map last_storing_row_def)
  have "dict_get ?cm v \<noteq> None \<or> dict_get ?cm (PStr (py_strip (py_str L v))) \<noteq> None"
    using st present by (auto simp: dict_get_def key_of_str)
  from mapped_value_two_probes [OF v this]
  obtain d where d: "mapped_value L ?cm v = Inr d" by blast
  have "d = x"
    using mapped_value_first_hit [OF v d] fk x by simp
  then have "mapped_value L ?cm v = Inr (desc_clean L (snd win))"
    using d win(2) by simp
  moreover have "first_stored_key L rows v = Some k"
    unfolding first_stored_key_map by (rule fk)
  ultimately show ?thesis using win(1) by blast
qed

lemma mapped_value_raises:
  assumes "mapped_value L cm v = Inl e"
  shows "find (\<lambda>k. k \<noteq> KNaN \<and> map_of cm k \<noteq> None) (probe_keys L v) = None"
proof -
  let ?s = "py_strip (py_str L v)"
  from assms obtain f where f: "float_of_str L ?s = Some f"
      and i: "py_int_of_float f = Inl e" "e \<noteq> ValueError"
      and m1: "dict_get cm v = None"
      and m2: "dict_get cm (PStr ?s) = None"
      and m3: "dict_get cm (PFloat f) = None"
    by (auto simp: mapped_value_def Let_def split: if_splits option.splits sum.splits)
  have p1: "\<not> (key_of v \<noteq> KNaN \<and> map_of cm (key_of v) \<noteq> None)"
    using m1 by (auto simp: dict_get_def split: if_splits)
  have p2: "map_of cm (KStr ?s) = None" using m2 by (simp add: dict_get_str)
  have p3: "\<not> (key_of (PFloat f) \<noteq> KNaN \<and> map_of cm (key_of (PFloat f)) \<noteq> None)"
    using m3 by (auto simp: dict_get_def split: if_splits)
  show ?thesis using f i(1) p1 p2 p3 by (simp add: probe_keys_def)
qed

lemma mapped_value_overflow:
  assumes v: "v \<noteq> PNone"
    and n: "find (\<lambda>k. k \<noteq> KNaN \<and> map_of cm k \<noteq> None) (probe_keys L v) = None"
    and f: "float_of_str L (py_strip (py_str L v)) = Some f" "f = PosInf \<or> f = NegInf"
  shows "mapped_value L cm v = Inl OverflowError"
proof -
  let ?s = "py_strip (py_str L v)"
  have k: "key_of (PFloat f) \<noteq> KNaN" using f(2) by (auto simp: key_of_def)
  have "key_of v \<in> set (probe_keys L v)" by (rule key_of_probe)
  from find_None_mem [OF n this] have m1: "dict_get cm v = None"
    by (auto simp: dict_get_def)
  have "KStr ?s \<in> set (probe_keys L v)" by (rule str_probe)
  from find_None_mem [OF n this] have m2: "dict_get cm (PStr ?s) = None"
    by (simp add: dict_get_str)
  have "key_of (PFloat f) \<in> set (probe_keys L v)" using f(1) by (simp add: probe_keys_def)
  from find_None_mem [OF n this] have m3: "dict_get cm (PFloat f) = None"
    using k by (auto simp: dict_get_def)
  have i: "py_int_of_float f = Inl OverflowError"
    using f(2) by (auto simp: py_int_of_float_def)
  show ?thesis using v m1 m2 m3 f(1) i by (simp add: mapped_value_def Let_def)
qed

lemma lookup_stored:
  assumes v: "v \<noteq> PNone" and fk: "first_stored_key L rows v = Some k"
  shows "\<exists>win. last_storing_row L rows k = Some win
          \<and> mapped_value L (build_code_map L rows) v = Inr (desc_clean L (snd win))"
proof -
  let ?cm = "build_code_map L rows"
  have f: "find (\<lambda>k. k \<noteq> KNaN \<and> map_of ?cm k \<noteq> None) (probe_keys L v) = Some k"
    using fk by (simp only: first_stored_key_map)
  from find_Some_mem [OF f] obtain x where x: "map_of ?cm k = Some x" by auto
  then obtain win where win: "last_storing_row L rows k = Some win" "x = desc_clean L (snd win)"
    by (auto simp: map_of_build_code_map last_storing_row_def)
  obtain d where d: "mapped_value L ?cm v = Inr d"
  proof (cases "mapped_value L ?cm v")
    case (Inl e)
    from mapped_value_raises [OF this] show ?thesis using f by simp
  next
    case (Inr d)
    then show ?thesis using that by simp
  qed
  have "d = x" using mapped_value_first_hit [OF v d] f x by simp
  then show ?thesis using d win by simp
qed

lemma lookup_not_stored:
  assumes v: "v \<noteq> PNone" and fk: "first_stored_key L rows v = None"
  shows "mapped_value L (build_code_map L rows) v
         = (if float_of_str L (py_strip (py_str L v)) = Some PosInf
               \<or> float_of_str L (py_strip (py_str L v)) = Some NegInf
            then Inl OverflowError else Inr [])"
proof -
  let ?cm = "build_code_map L rows"
  have n: "find (\<lambda>k. k \<noteq> KNaN \<and> map_of ?cm k \<noteq> None) (probe_keys L v) = None"
    using fk by (simp only: first_stored_key_map)
  show ?thesis
  proof (cases "float_of_str L (py_strip (py_str L v)) = Some PosInf
               \<or> float_of_str L (py_strip (py_str L v)) = Some NegInf")
    case True
    then obtain f where "float_of_str L (py_strip (py_str L v)) = Some f" "f = PosInf \<or> f = NegInf"
      by auto
    from mapped_value_overflow [OF v n this] show ?thesis using True by simp
  next
    case False
    obtain d where d: "mapped_value L ?cm v = Inr d"
    proof (cases "mapped_value L ?cm v")
      case (Inl e)
      from mapped_value_error [OF this] show ?thesis using False by simp
    next
      case (Inr d)
      then show ?thesis using that by simp
    qed
    have "d = []" using mapped_value_first_hit [OF v d] n by simp
    then show ?thesis using d False by simp
  qed
qed

lemma representation_hits:
  assumes mem: "(code, desc) \<in> set rows"
    and nn: "code \<noteq> PNone" "desc \<noteq> PNone"
    and ks: "row_keys L code = Inr ks"
    and rep: "v \<in> set (representations L code)"
  shows "v \<noteq> PNone \<and> first_stored_key L rows v \<noteq> None"
  using lookup_first_stored [OF mem nn ks rep] representation_stored [OF nn(1) ks rep] by auto

lemma pro_cache_hit:
  assumes "load_domain_mappings_pro L e ts c f cf p g = (m, c')"
    and "read_domain_pro L e ts f cf p g \<noteq> None \<or> c (f, cf, p, g) \<noteq> None"
  shows "load_domain_mappings_pro L2 e2 ts2 c' f cf p g = (m, c')"
  using assms
  by (auto simp: load_domain_mappings_pro_def Let_def split: option.splits)

text \<open>
  Claim C1, amended. Let the loader read a domain table: the table exists and has the code
  field and a description field matching the pattern. The lookup of \<open>None\<close> gives the
  empty string. The lookup of any other source value probes the keys raw value, trimmed
  string, parsed float, parsed integer, in that order. When a first one of them is stored
  by the table, the lookup returns the trimmed description of the last row of the table
  that stores that key. When none is stored, it returns the empty string, unless the
  float parsed from the value is infinite: then it raises \<open>OverflowError\<close>.

  Let the table hold the row \<open>(code, desc)\<close>, neither value \<open>None\<close> and the row not
  skipped, and let \<open>v\<close> be the code as a source field may hold it: the raw value, its
  trimmed string or, when the code is numeric, its float or its integer. Then the map is
  not empty and one of the keys probed for \<open>v\<close> is stored, so the lookup returns a
  description: that of \<open>(code, desc)\<close> exactly when the last row storing the first stored
  key carries the same trimmed description.

  With a map that is not empty, \<open>apply_domain_mapping\<close> writes the value the lookup
  returns for a feature into its target field, in a file that has the source field, when
  no earlier feature has raised in the lookup and so ended the cursor loop.
\<close>

theorem domain_lookup_amended:
  assumes table: "ts (domain_table_path e domain_file gp) = Some t"
    and descf: "find_desc_field pattern t = Some desc_field" "desc_field \<noteq> []"
    and codef: "code_field \<in> set (field_names t)"
  shows "mapped_value L (load_domain_mappings L e ts domain_file code_field pattern gp) PNone = Inr ''''
       \<and> (u \<noteq> PNone \<and> first_stored_key L (table_rows t code_field desc_field) u = Some k
            \<longrightarrow> (\<exists>win. last_storing_row L (table_rows t code_field desc_field) k = Some win
                   \<and> mapped_value L (load_domain_mappings L e ts domain_file code_field pattern gp) u
                       = Inr (py_strip (py_str L (snd win)))))
       \<and> (u \<noteq> PNone \<and> first_stored_key L (table_rows t code_field desc_field) u = None
            \<longrightarrow> mapped_value L (load_domain_mappings L e ts domain_file code_field pattern gp) u
                 = (if float_of_str L (py_strip (py_str L u)) = Some PosInf
                       \<or> float_of_str L (py_strip (py_str L u)) = Some NegInf
                    then Inl OverflowError else Inr ''''))
       \<and> ((code, desc) \<in> set (table_rows t code_field desc_field)
            \<and> code \<noteq> PNone \<and> desc \<noteq> PNone \<and> row_keys L code = Inr ks
            \<and> v \<in> set (representations L code)
            \<longrightarrow> v \<noteq> PNone
               \<and> load_domain_mappings L e ts domain_file code_field pattern gp \<noteq> []
               \<and> (\<exists>k' win.
                      first_stored_key L (table_rows t code_field desc_field) v = Some k'
                    \<and> last_storing_row L (table_rows t code_field desc_field) k' = Some win
                    \<and> mapped_value L (load_domain_mappings L e ts domain_file code_field pattern gp) v
                        = Inr (py_strip (py_str L (snd win)))
                    \<and> ((mapped_value L (load_domain_mappings L e ts domain_file code_field pattern gp) v
                          = Inr (py_strip (py_str L desc)))
                         = (py_strip (py_str L (snd win)) = py_strip (py_str L desc)))))
       \<and> (load_domain_mappings L e ts domain_file code_field pattern gp \<noteq> []
            \<and> resolve_field shp source_field = Some src
            \<and> i < length (fc_rows shp)
            \<and> list_all (\<lambda>w. \<not> isl (mapped_value L
                          (load_domain_mappings L e ts domain_file code_field pattern gp) w))
                 (take i (map (\<lambda>r. row_get r src) (fc_rows shp)))
            \<and> mapped_value L (load_domain_mappings L e ts domain_file code_field pattern gp)
                 (row_get (fc_rows shp ! i) src) = Inr x
            \<longrightarrow> (\<exists>shp' log tgt.
                   apply_domain_mapping L shp field_name source_field
                     (load_domain_mappings L e ts domain_file code_field pattern gp) = Inr (shp', log)
                 \<and> resolve_field shp' field_name = Some tgt
                 \<and> row_get (fc_rows shp' ! i) tgt = PStr x))"
proof -
  let ?rows = "table_rows t code_field desc_field"
  let ?cm = "load_domain_mappings L e ts domain_file code_field pattern gp"
  have cm: "?cm = build_code_map L ?rows"
    using read_domain_table [of ts e domain_file gp t pattern desc_field code_field L]
      table descf codef by simp
  have none: "mapped_value L ?cm PNone = Inr ''''"
    by (rule mapped_value_none)
  have stored: "\<exists>win. last_storing_row L ?rows k = Some win
                  \<and> mapped_value L ?cm u = Inr (py_strip (py_str L (snd win)))"
    if "u \<noteq> PNone" "first_stored_key L ?rows u = Some k"
    using lookup_stored [OF that] by (simp add: cm desc_clean_def)
  have not_stored: "mapped_value L ?cm u
                 = (if float_of_str L (py_strip (py_str L u)) = Some PosInf
                       \<or> float_of_str L (py_strip (py_str L u)) = Some NegInf
                    then Inl OverflowError else Inr '''')"
    if "u \<noteq> PNone" "first_stored_key L ?rows u = None"
    using lookup_not_stored [OF that] by (simp add: cm)
  have own: "v \<noteq> PNone \<and> ?cm \<noteq> []
             \<and> (\<exists>k' win.
                      first_stored_key L ?rows v = Some k'
                    \<and> last_storing_row L ?rows k' = Some win
                    \<and> mapped_value L ?cm v = Inr (py_strip (py_str L (snd win)))
                    \<and> ((mapped_value L ?cm v = Inr (py_strip (py_str L desc)))
                         = (py_strip (py_str L (snd win)) = py_strip (py_str L desc))))"
    if row: "(code, desc) \<in> set ?rows" and nn: "code \<noteq> PNone" "desc \<noteq> PNone"
      and ks: "row_keys L code = Inr ks" and rep: "v \<in> set (representations L code)"
  proof -
    have v: "v \<noteq> PNone"
      using representation_hits [OF row nn ks rep] by simp
    obtain k' win where k': "first_stored_key L ?rows v = Some k'"
      and win: "last_storing_row L ?rows k' = Some win"
      and hit: "mapped_value L ?cm v = Inr (py_strip (py_str L (snd win)))"
      using lookup_first_stored [OF row nn ks rep] by (auto simp: cm desc_clean_def)
    have ne: "?cm \<noteq> []"
    proof
      assume "?cm = []"
      then have "map_of (build_code_map L ?rows) (KStr (py_strip (py_str L code))) = None"
        using cm by simp
      moreover have "KStr (py_strip (py_str L code)) \<in> set (keys_of_row L (code, desc))"
        using nn ks row_keys_trimmed [OF ks] by (simp add: keys_of_row_def)
      ultimately show False
        using build_code_map_present [OF row] by blast
    qed
    have "(mapped_value L ?cm v = Inr (py_strip (py_str L desc)))
            = (py_strip (py_str L (snd win)) = py_strip (py_str L desc))"
      using hit by simp
    then show ?thesis using v ne k' win hit by blast
  qed
  have written: "\<exists>shp' log tgt.
             apply_domain_mapping L shp field_name source_field ?cm = Inr (shp', log)
           \<and> resolve_field shp' field_name = Some tgt
           \<and> row_get (fc_rows shp' ! i) tgt = PStr x"
    if ne: "?cm \<noteq> []"
      and src: "resolve_field shp source_field = Some src"
      and i: "i < length (fc_rows shp)"
      and before: "list_all (\<lambda>w. \<not> isl (mapped_value L ?cm w))
                     (take i (map (\<lambda>r. row_get r src) (fc_rows shp)))"
      and val: "mapped_value L ?cm (row_get (fc_rows shp ! i) src) = Inr x"
  proof -
    have ok: "list_all (\<lambda>w. \<not> isl (mapped_value L ?cm w))
                (take (Suc i) (map (\<lambda>r. row_get r src) (fc_rows shp)))"
      using before i val by (simp add: take_Suc_conv_app_nth)
    show ?thesis
      using apply_domain_mapping_row [OF ne src i ok val, of field_name] by blast
  qed
  show ?thesis using none stored not_stored own written by blast
qed

text \<open>
  Claim C1, as stated, fails on a table with the rows \<open>("2", "Clay")\<close> and
  \<open>("2.5", "Sand")\<close>: the second row is stored under the integer its float truncates to,
  \<open>2\<close>, and overwrites the numeric key of the first row. A feature whose source value is
  the integer \<open>2\<close>, the integer form of the code \<open>"2"\<close>, gets \<open>Sand\<close>, not \<open>Clay\<close>.
\<close>

theorem domain_lookup_counterexample:
  "load_domain_mappings dec_lib example_env (example_tables collision_rows)
       ''d_tipo.dbf'' ''CODE'' ''DESC'' False
     = [(KStr ''2'', ''Clay''), (KNum 2, ''Sand''), (KStr ''2.5'', ''Sand''), (KNum (5 / 2), ''Sand'')]
   \<and> PInt 2 \<in> set (representations dec_lib (PStr ''2''))
   \<and> desc_clean dec_lib (PStr ''Clay'') = ''Clay''
   \<and> mapped_value dec_lib
        (load_domain_mappings dec_lib example_env (example_tables collision_rows)
           ''d_tipo.dbf'' ''CODE'' ''DESC'' False) (PInt 2) = Inr ''Sand''"
proof -
  have t: "example_tables collision_rows (domain_table_path example_env ''d_tipo.dbf'' False)
           = Some (domain_table collision_rows)"
    by (simp add: example_tables_def domain_table_path_def example_env_def path_join_def)
  have f: "find_desc_field ''DESC'' (domain_table collision_rows) = Some ''DESCR''"
    by code_simp
  have c: "''CODE'' \<in> set (field_names (domain_table collision_rows))"
    by code_simp
  have r: "table_rows (domain_table collision_rows) ''CODE'' ''DESCR'' = collision_rows"
    by code_simp
  have b: "build_code_map dec_lib collision_rows
      = [(KStr ''2'', ''Clay''), (KNum 2, ''Sand''), (KStr ''2.5'', ''Sand''), (KNum (5 / 2), ''Sand'')]"
    by code_simp
  have l: "load_domain_mappings dec_lib example_env (example_tables collision_rows)
       ''d_tipo.dbf'' ''CODE'' ''DESC'' False
     = [(KStr ''2'', ''Clay''), (KNum 2, ''Sand''), (KStr ''2.5'', ''Sand''), (KNum (5 / 2), ''Sand'')]"
    using t f c r b by (simp add: load_domain_mappings_def read_domain_def)
  have p: "PInt 2 \<in> set (representations dec_lib (PStr ''2''))"
    by code_simp
  have dc: "desc_clean dec_lib (PStr ''Clay'') = ''Clay''"
    by code_simp
  have m: "mapped_value dec_lib
        [(KStr ''2'', ''Clay''), (KNum 2, ''Sand''), (KStr ''2.5'', ''Sand''), (KNum (5 / 2), ''Sand'')]
        (PInt 2) = Inr ''Sand''"
    by code_simp
  show ?thesis using l p dc m by simp
qed

theorem domain_lookup_amended_witness:
  "example_tables overlap_rows (domain_table_path example_env ''d_tipo.dbf'' False)
     = Some (domain_table overlap_rows)
   \<and> find_desc_field ''DESC'' (domain_table overlap_rows) = Some ''DESCR''
   \<and> ''CODE'' \<in> set (field_names (domain_table overlap_rows))
   \<and> (PStr ''1.5'', PStr ''B'') \<in> set (table_rows (domain_table overlap_rows) ''CODE'' ''DESCR'')
   \<and> row_keys dec_lib (PStr ''1.5'') = Inr [KStr ''1.5'', KStr ''1.5'', KNum (3 / 2), KNum 1]
   \<and> PStr ''1.5'' \<in> set (representations dec_lib (PStr ''1.5''))
   \<and> first_stored_key dec_lib (table_rows (domain_table overlap_rows) ''CODE'' ''DESCR'') (PStr ''1.5'')
       = Some (KStr ''1.5'')
   \<and> last_storing_row dec_lib (table_rows (domain_table overlap_rows) ''CODE'' ''DESCR'') (KStr ''1.5'')
       = Some (PStr ''1.5'', PStr ''B'')
   \<and> mapped_value dec_lib
        (load_domain_mappings dec_lib example_env (example_tables overlap_rows)
           ''d_tipo.dbf'' ''CODE'' ''DESC'' False) (PStr ''1.5'') = Inr ''B''
   \<and> first_stored_key dec_lib (table_rows (domain_table overlap_rows) ''CODE'' ''DESCR'') (PStr ''x'')
       = None
   \<and> mapped_value dec_lib
        (load_domain_mappings dec_lib example_env (example_tables overlap_rows)
           ''d_tipo.dbf'' ''CODE'' ''DESC'' False) (PStr ''x'') = Inr ''''
   \<and> resolve_field (point_file [PStr ''x'', PStr ''1.5'']) ''TIPO'' = Some ''Tipo''
   \<and> row_get (fc_rows (point_file [PStr ''x'', PStr ''1.5'']) ! 1) ''Tipo'' = PStr ''1.5''
   \<and> (\<exists>shp' log tgt.
         apply_domain_mapping dec_lib (point_file [PStr ''x'', PStr ''1.5'']) ''Tipo_txt'' ''TIPO''
           (load_domain_mappings dec_lib example_env (example_tables overlap_rows)
              ''d_tipo.dbf'' ''CODE'' ''DESC'' False) = Inr (shp', log)
       \<and> resolve_field shp' ''Tipo_txt'' = Some tgt
       \<and> row_get (fc_rows shp' ! 1) tgt = PStr ''B'')"
proof -
  let ?rows = "table_rows (domain_table overlap_rows) ''CODE'' ''DESCR''"
  let ?cm = "load_domain_mappings dec_lib example_env (example_tables overlap_rows)
               ''d_tipo.dbf'' ''CODE'' ''DESC'' False"
  let ?shp = "point_file [PStr ''x'', PStr ''1.5'']"
  have h1: "example_tables overlap_rows (domain_table_path example_env ''d_tipo.dbf'' False)
     = Some (domain_table overlap_rows)"
    by (simp add: example_tables_def domain_table_path_def example_env_def path_join_def)
  have h2: "find_desc_field ''DESC'' (domain_table overlap_rows) = Some ''DESCR''"
    by code_simp
  have h3: "''DESCR'' \<noteq> []" by simp
  have h4: "''CODE'' \<in> set (field_names (domain_table overlap_rows))"
    by code_simp
  have h5: "(PStr ''1.5'', PStr ''B'') \<in> set ?rows"
    by code_simp
  have h6: "PStr ''1.5'' \<noteq> PNone" "PStr ''B'' \<noteq> PNone" "PStr ''x'' \<noteq> PNone" by simp_all
  have h7: "row_keys dec_lib (PStr ''1.5'') = Inr [KStr ''1.5'', KStr ''1.5'', KNum (3 / 2), KNum 1]"
    by code_simp
  have h8: "PStr ''1.5'' \<in> set (representations dec_lib (PStr ''1.5''))"
    by code_simp
  have h10: "resolve_field ?shp ''TIPO'' = Some ''Tipo''"
    by code_simp
  have h11: "1 < length (fc_rows ?shp)"
    by (simp add: point_file_def)
  have h13: "row_get (fc_rows ?shp ! 1) ''Tipo'' = PStr ''1.5''"
    by code_simp
  have h14: "take 1 (map (\<lambda>r. row_get r ''Tipo'') (fc_rows ?shp)) = [PStr ''x'']"
    by code_simp
  have fk: "first_stored_key dec_lib ?rows (PStr ''1.5'') = Some (KStr ''1.5'')"
    by code_simp
  have lr: "last_storing_row dec_lib ?rows (KStr ''1.5'') = Some (PStr ''1.5'', PStr ''B'')"
    by code_simp
  have fx: "first_stored_key dec_lib ?rows (PStr ''x'') = None"
    by code_simp
  have nx: "float_of_str dec_lib (py_strip (py_str dec_lib (PStr ''x''))) = None"
    by code_simp
  have s: "py_strip (py_str dec_lib (PStr ''B'')) = ''B''"
    by code_simp
  note hit = domain_lookup_amended [where ts = "example_tables overlap_rows" and e = example_env
      and domain_file = "''d_tipo.dbf''" and gp = False and t = "domain_table overlap_rows"
      and pattern = "''DESC''" and desc_field = "''DESCR''" and code_field = "''CODE''"
      and L = dec_lib and u = "PStr ''1.5''" and k = "KStr ''1.5''"
      and code = "PStr ''1.5''" and desc = "PStr ''B''"
      and ks = "[KStr ''1.5'', KStr ''1.5'', KNum (3 / 2), KNum 1]" and v = "PStr ''1.5''"
      and shp = ?shp and source_field = "''TIPO''" and src = "''Tipo''" and i = 1
      and field_name = "''Tipo_txt''" and x = "''B''", OF h1 h2 h3 h4]
  note miss = domain_lookup_amended [where ts = "example_tables overlap_rows" and e = example_env
      and domain_file = "''d_tipo.dbf''" and gp = False and t = "domain_table overlap_rows"
      and pattern = "''DESC''" and desc_field = "''DESCR''" and code_field = "''CODE''"
      and L = dec_lib and u = "PStr ''x''", OF h1 h2 h3 h4]
  have m1: "mapped_value dec_lib ?cm (PStr ''1.5'') = Inr ''B''"
    using hit h6 fk lr s by auto
  have m2: "mapped_value dec_lib ?cm (PStr ''x'') = Inr ''''"
    using miss h6 fx nx by simp
  have ne: "?cm \<noteq> []"
    using hit h5 h6 h7 h8 by blast
  have before: "list_all (\<lambda>w. \<not> isl (mapped_value dec_lib ?cm w))
                  (take 1 (map (\<lambda>r. row_get r ''Tipo'') (fc_rows ?shp)))"
    unfolding h14 using m2 by simp
  have val: "mapped_value dec_lib ?cm (row_get (fc_rows ?shp ! 1) ''Tipo'') = Inr ''B''"
    unfolding h13 by (rule m1)
  have w: "\<exists>shp' log tgt.
         apply_domain_mapping dec_lib ?shp ''Tipo_txt'' ''TIPO'' ?cm = Inr (shp', log)
       \<and> resolve_field shp' ''Tipo_txt'' = Some tgt
       \<and> row_get (fc_rows shp' ! 1) tgt = PStr ''B''"
    using hit ne h10 h11 before val by blast
  show ?thesis using h1 h2 h4 h5 h7 h8 fk lr m1 fx m2 h10 h13 w by simp
qed

lemma apply_missing_table:
  assumes "ts (domain_table_path e domain_file gp) = None"
  shows "apply_domain_mapping L shp field_name source_field
           (load_domain_mappings L e ts domain_file code_field pattern gp)
         = Inr (shp, [Warning (''No domain mappings available for '' @ field_name)])"
  using assms by (simp add: apply_domain_mapping_def load_domain_mappings_def read_domain_def)

text \<open>
  Claim C9. With an empty code map \<open>apply_domain_mapping\<close> returns the file it was
  given, fields and rows, and logs one warning: the target field is not created and no
  row is written. This is what happens for a domain table that is missing from the
  store, since its load gives the empty map.
\<close>

theorem apply_domain_mapping_empty:
  "apply_domain_mapping L shp field_name source_field []
     = Inr (shp, [Warning (''No domain mappings available for '' @ field_name)])
   \<and> (ts (domain_table_path e domain_file gp) = None \<longrightarrow>
        apply_domain_mapping L shp field_name source_field
          (load_domain_mappings L e ts domain_file code_field pattern gp)
        = Inr (shp, [Warning (''No domain mappings available for '' @ field_name)]))"
proof -
  have guard: "apply_domain_mapping L shp field_name source_field []
     = Inr (shp, [Warning (''No domain mappings available for '' @ field_name)])"
    by (simp add: apply_domain_mapping_def)
  show ?thesis
    using guard apply_missing_table [of ts e domain_file gp L shp field_name source_field code_field pattern]
    by blast
qed

theorem apply_domain_mapping_empty_witness:
  "no_tables (domain_table_path example_env ''d_tipo.dbf'' False) = None
   \<and> apply_domain_mapping dec_lib (point_file [PInt 2]) ''Tipo_txt'' ''Tipo''
        (load_domain_mappings dec_lib example_env no_tables ''d_tipo.dbf'' ''CODE'' ''DESC'' False)
      = Inr (point_file [PInt 2], [Warning ''No domain mappings available for Tipo_txt''])
   \<and> resolve_field (point_file [PInt 2]) ''Tipo_txt'' = None"
proof -
  have h: "no_tables (domain_table_path example_env ''d_tipo.dbf'' False) = None"
    by (simp add: no_tables_def)
  have r: "resolve_field (point_file [PInt 2]) ''Tipo_txt'' = None"
    by code_simp
  show ?thesis
    using h r apply_domain_mapping_empty [of dec_lib "point_file [PInt 2]" "''Tipo_txt''" "''Tipo''"
        no_tables example_env "''d_tipo.dbf''" False "''CODE''" "''DESC''"]
    by simp
qed

text \<open>
  Claim C6 on the code. \<open>load_domain_mappings\<close> of \<open>BDgpkg2shape.py\<close> returns the
  current content of the table at every call: after the table is edited, a second call
  with the same arguments returns the new map. The version of \<open>BDgpkg2shapePRO.py\<close>
  returns at the second call the map it cached at the first one, an empty map too
  (\<open>pro_cache_hit\<close> is the general statement).
\<close>

theorem bd_load_rereads_table:
  "load_domain_mappings dec_lib example_env (example_tables rows_before)
       ''d_tipo.dbf'' ''CODE'' ''DESC'' False = [(KStr ''A'', ''Attivo'')]
   \<and> load_domain_mappings dec_lib example_env (example_tables rows_after)
       ''d_tipo.dbf'' ''CODE'' ''DESC'' False = [(KStr ''A'', ''Quiescente'')]
   \<and> fst (load_domain_mappings_pro dec_lib example_env (example_tables rows_after)
            (snd (load_domain_mappings_pro dec_lib example_env (example_tables rows_before)
                    no_cache ''d_tipo.dbf'' ''CODE'' ''DESC'' False))
            ''d_tipo.dbf'' ''CODE'' ''DESC'' False) = [(KStr ''A'', ''Attivo'')]
   \<and> load_domain_mappings dec_lib example_env (example_tables [])
       ''d_tipo.dbf'' ''CODE'' ''DESC'' False = []
   \<and> fst (load_domain_mappings_pro dec_lib example_env (example_tables rows_after)
            (snd (load_domain_mappings_pro dec_lib example_env (example_tables [])
                    no_cache ''d_tipo.dbf'' ''CODE'' ''DESC'' False))
            ''d_tipo.dbf'' ''CODE'' ''DESC'' False) = []"
proof -
  have t: "example_tables rows (domain_table_path example_env ''d_tipo.dbf'' False)
           = Some (domain_table rows)" for rows
    by (simp add: example_tables_def domain_table_path_def example_env_def path_join_def)
  have f: "find_desc_field ''DESC'' (domain_table rows) = Some ''DESCR''" for rows
    by (simp add: find_desc_field_def domain_table_def field_names_def py_upper_def upper_char_def)
  have c: "''CODE'' \<in> set (field_names (domain_table rows))" for rows
    by (simp add: domain_table_def field_names_def)
  have rd: "read_domain dec_lib example_env (example_tables rows) ''d_tipo.dbf'' ''CODE'' ''DESC'' False
            = Some (build_code_map dec_lib (table_rows (domain_table rows) ''CODE'' ''DESCR''))" for rows
    by (simp add: read_domain_def t f c)
  have rp: "read_domain_pro dec_lib example_env (example_tables rows) ''d_tipo.dbf'' ''CODE'' ''DESC'' False
            = Some (foldl (add_row_pro dec_lib) [] (table_rows (domain_table rows) ''CODE'' ''DESCR''))"
    for rows
    by (simp add: read_domain_pro_def t f c)
  have b1: "build_code_map dec_lib (table_rows (domain_table rows_before) ''CODE'' ''DESCR'')
            = [(KStr ''A'', ''Attivo'')]"
    by code_simp
  have b2: "build_code_map dec_lib (table_rows (domain_table rows_after) ''CODE'' ''DESCR'')
            = [(KStr ''A'', ''Quiescente'')]"
    by code_simp
  have b3: "build_code_map dec_lib (table_rows (domain_table []) ''CODE'' ''DESCR'') = []"
    by code_simp
  have p1: "foldl (add_row_pro dec_lib) [] (table_rows (domain_table rows_before) ''CODE'' ''DESCR'')
            = [(KStr ''A'', ''Attivo'')]"
    by code_simp
  have p3: "foldl (add_row_pro dec_lib) [] (table_rows (domain_table []) ''CODE'' ''DESCR'') = []"
    by code_simp
  show ?thesis
    by (simp add: load_domain_mappings_def load_domain_mappings_pro_def Let_def rd rp b1 b2 b3 p1 p3
        no_cache_def)
qed

text \<open>
  The exception the lookup does not catch. A source value that is not \<open>None\<close>, hits no
  key as it is, as its trimmed string or as its float, and whose float is infinite,
  raises the \<open>OverflowError\<close> of \<open>int()\<close>: the handler in the loop catches
  \<open>ValueError\<close> and \<open>TypeError\<close> only, so the cursor loop ends there, and the row and
  every later row keep the target value they had.
\<close>

theorem lookup_overflow_ends_cursor:
  assumes "row_get r src \<noteq> PNone"
    and "dict_get cm (row_get r src) = None"
    and "dict_get cm (PStr (py_strip (py_str L (row_get r src)))) = None"
    and "float_of_str L (py_strip (py_str L (row_get r src))) = Some f"
    and "f = PosInf \<or> f = NegInf"
    and "dict_get cm (PFloat f) = None"
  shows "mapped_value L cm (row_get r src) = Inl OverflowError
       \<and> update_rows (mapped_value L cm) src tgt (r # rs) = (r # rs, Some OverflowError)"
proof -
  have i: "py_int_of_float f = Inl OverflowError"
    using assms(5) by (auto simp: py_int_of_float_def)
  have "mapped_value L cm (row_get r src) = Inl OverflowError"
    using assms(1,2,3,4,6) i by (simp add: mapped_value_def Let_def)
  then show ?thesis by simp
qed

theorem lookup_overflow_ends_cursor_witness:
  "mapped_value dec_lib (build_code_map dec_lib collision_rows) (PStr ''inf'') = Inl OverflowError
   \<and> (case apply_domain_mapping dec_lib (point_file [PInt 2, PStr ''inf'', PInt 2]) ''Tipo_txt'' ''Tipo''
             (build_code_map dec_lib collision_rows) of
        Inl e \<Rightarrow> False
      | Inr (shp', entries) \<Rightarrow>
          map (\<lambda>r. row_get r ''Tipo_txt'') (fc_rows shp') = [PStr ''Sand'', PStr '''', PStr '''']
        \<and> entries = [Error ''Error applying domain mapping for Tipo_txt''])"
proof -
  let ?r = "[(''Tipo'', PStr ''inf'')]"
  have g: "row_get ?r ''Tipo'' = PStr ''inf''" by code_simp
  have h1: "row_get ?r ''Tipo'' \<noteq> PNone" by (simp add: g)
  have h2: "dict_get (build_code_map dec_lib collision_rows) (row_get ?r ''Tipo'') = None"
    by code_simp
  have h3: "dict_get (build_code_map dec_lib collision_rows)
              (PStr (py_strip (py_str dec_lib (row_get ?r ''Tipo'')))) = None"
    by code_simp
  have h4: "float_of_str dec_lib (py_strip (py_str dec_lib (row_get ?r ''Tipo''))) = Some PosInf"
    by code_simp
  have h5: "PosInf = PosInf \<or> PosInf = NegInf" by simp
  have h6: "dict_get (build_code_map dec_lib collision_rows) (PFloat PosInf) = None"
    by code_simp
  note t = lookup_overflow_ends_cursor [OF h1 h2 h3 h4 h5 h6, of "''Tipo_txt''" "[]"]
  have a: "(case apply_domain_mapping dec_lib (point_file [PInt 2, PStr ''inf'', PInt 2]) ''Tipo_txt'' ''Tipo''
             (build_code_map dec_lib collision_rows) of
        Inl e \<Rightarrow> False
      | Inr (shp', entries) \<Rightarrow>
          map (\<lambda>r. row_get r ''Tipo_txt'') (fc_rows shp') = [PStr ''Sand'', PStr '''', PStr '''']
        \<and> entries = [Error ''Error applying domain mapping for Tipo_txt''])"
    by code_simp
  show ?thesis using t a g by simp
qed

section \<open>Verification of the sheet-id injection\<close>

lemma upper_foglio: "py_upper ''Foglio'' = ''FOGLIO''"
  by (simp add: py_upper_def upper_char_def)

lemma calculate_field_rows:
  assumes "resolve_field shp field_name = Some tgt" "py_eval expression = Inr v"
  shows "\<exists>shp'. CalculateField_management py_eval shp field_name expression = (shp', None)
          \<and> resolve_field shp' field_name = Some tgt
          \<and> map (\<lambda>r. row_get r tgt) (fc_rows shp') = map (\<lambda>r. v) (fc_rows shp)"
  using assms
  by (simp add: CalculateField_management_def resolve_field_def field_names_def comp_def
      row_get_set_same)

lemma ensure_foglio:
  "\<exists>shp1 tgt.
     (if ''FOGLIO'' \<notin> set (map fst (existing_fields shp))
      then AddField_management shp ''Foglio'' n else Inr shp) = Inr shp1
   \<and> resolve_field shp1 ''Foglio'' = Some tgt
   \<and> length (fc_rows shp1) = length (fc_rows shp)"
  using ensure_field [of "''Foglio''" shp n] unfolding upper_foglio by blast

lemma map_const_length: "length xs = length ys \<Longrightarrow> map (\<lambda>r. v) xs = map (\<lambda>r. v) ys"
  by (simp add: map_replicate_const)

lemma bd_foglio_rows:
  assumes "py_eval (quoted foglio) = Inr (PStr foglio)"
  shows "\<exists>shp' tgt. add_foglio_field py_eval foglio shp = (shp', None)
          \<and> resolve_field shp' ''Foglio'' = Some tgt
          \<and> map (\<lambda>r. row_get r tgt) (fc_rows shp') = map (\<lambda>r. PStr foglio) (fc_rows shp)"
proof -
  obtain shp1 tgt where
    a: "(if ''FOGLIO'' \<notin> set (map fst (existing_fields shp))
         then AddField_management shp ''Foglio'' 50 else Inr shp) = Inr shp1"
    and t: "resolve_field shp1 ''Foglio'' = Some tgt"
    and l: "length (fc_rows shp1) = length (fc_rows shp)"
    using ensure_foglio [of shp 50] by blast
  obtain shp' where
    "CalculateField_management py_eval shp1 ''Foglio'' (quoted foglio) = (shp', None)"
    "resolve_field shp' ''Foglio'' = Some tgt"
    "map (\<lambda>r. row_get r tgt) (fc_rows shp') = map (\<lambda>r. PStr foglio) (fc_rows shp1)"
    using calculate_field_rows [of shp1 "''Foglio''" tgt py_eval "quoted foglio" "PStr foglio"] t assms
    by blast
  then show ?thesis
    using a map_const_length [OF l, of "PStr foglio"] by (auto simp: add_foglio_field_def)
qed

lemma foglio_lookup_empty: "foglio_lookup [] foglio = foglio"
  by (simp add: foglio_lookup_def dict_get_def)

lemma pro_foglio_rows:
  assumes "py_eval (quoted (foglio_lookup
              (fst (load_domain_mappings_pro L e ts c ''d_foglio.dbf'' ''N1'' ''N2'' False)) foglio))
           = Inr (PStr (foglio_lookup
              (fst (load_domain_mappings_pro L e ts c ''d_foglio.dbf'' ''N1'' ''N2'' False)) foglio))"
  shows "\<exists>shp' tgt c'. add_foglio_field_pro py_eval L e ts c foglio shp = ((shp', None), c')
          \<and> resolve_field shp' ''Foglio'' = Some tgt
          \<and> map (\<lambda>r. row_get r tgt) (fc_rows shp')
              = map (\<lambda>r. PStr (foglio_lookup
                   (fst (load_domain_mappings_pro L e ts c ''d_foglio.dbf'' ''N1'' ''N2'' False)) foglio))
                  (fc_rows shp)"
proof -
  obtain fd c' where ld: "load_domain_mappings_pro L e ts c ''d_foglio.dbf'' ''N1'' ''N2'' False = (fd, c')"
    by (cases "load_domain_mappings_pro L e ts c ''d_foglio.dbf'' ''N1'' ''N2'' False") auto
  let ?x = "foglio_lookup fd foglio"
  have ev: "py_eval (quoted ?x) = Inr (PStr ?x)" using assms ld by simp
  obtain shp1 tgt where
    a: "(if ''FOGLIO'' \<notin> set (map fst (existing_fields shp))
         then AddField_management shp ''Foglio'' 254 else Inr shp) = Inr shp1"
    and t: "resolve_field shp1 ''Foglio'' = Some tgt"
    and l: "length (fc_rows shp1) = length (fc_rows shp)"
    using ensure_foglio [of shp 254] by blast
  obtain shp' where
    calc: "CalculateField_management py_eval shp1 ''Foglio'' (quoted ?x) = (shp', None)"
    "resolve_field shp' ''Foglio'' = Some tgt"
    "map (\<lambda>r. row_get r tgt) (fc_rows shp') = map (\<lambda>r. PStr ?x) (fc_rows shp1)"
    using calculate_field_rows [of shp1 "''Foglio''" tgt py_eval "quoted ?x" "PStr ?x"] t ev
    by blast
  have raw: "fd = [] \<Longrightarrow> ?x = foglio" by (simp add: foglio_lookup_empty)
  have "add_foglio_field_pro py_eval L e ts c foglio shp = ((shp', None), c')"
    using a ld calc(1) raw by (cases "fd = []") (simp_all add: add_foglio_field_pro_def)
  then show ?thesis
    using calc(2,3) map_const_length [OF l, of "PStr ?x"] ld by auto
qed

text \<open>
  Claim C7, amended. In \<open>BDgpkg2shapePRO.py\<close> the value written into \<open>Foglio\<close> of every
  row is the sheet value looked up in the domain loaded from \<open>d_foglio.dbf\<close> (one lookup,
  by the sheet value as a string), and the raw sheet value when the domain does not map
  it or is empty. In \<open>BDgpkg2shape.py\<close> the raw sheet value is written and no domain is
  consulted. In both scripts the value reaches the rows through an expression the store
  evaluates, so each statement holds when the quoted value evaluates to itself.
\<close>

theorem foglio_injection_amended:
  "(py_eval (quoted (foglio_lookup
        (fst (load_domain_mappings_pro L e ts c ''d_foglio.dbf'' ''N1'' ''N2'' False)) foglio))
      = Inr (PStr (foglio_lookup
        (fst (load_domain_mappings_pro L e ts c ''d_foglio.dbf'' ''N1'' ''N2'' False)) foglio))
    \<longrightarrow> (\<exists>shp' tgt c'. add_foglio_field_pro py_eval L e ts c foglio shp = ((shp', None), c')
          \<and> resolve_field shp' ''Foglio'' = Some tgt
          \<and> map (\<lambda>r. row_get r tgt) (fc_rows shp')
              = map (\<lambda>r. PStr (foglio_lookup
                   (fst (load_domain_mappings_pro L e ts c ''d_foglio.dbf'' ''N1'' ''N2'' False)) foglio))
                  (fc_rows shp)))
   \<and> foglio_lookup fd foglio = (case map_of fd (KStr foglio) of Some d \<Rightarrow> d | None \<Rightarrow> foglio)
   \<and> (py_eval (quoted foglio) = Inr (PStr foglio)
      \<longrightarrow> (\<exists>shp' tgt. add_foglio_field py_eval foglio shp = (shp', None)
            \<and> resolve_field shp' ''Foglio'' = Some tgt
            \<and> map (\<lambda>r. row_get r tgt) (fc_rows shp') = map (\<lambda>r. PStr foglio) (fc_rows shp)))"
proof -
  have l: "foglio_lookup fd foglio = (case map_of fd (KStr foglio) of Some d \<Rightarrow> d | None \<Rightarrow> foglio)"
    by (simp add: foglio_lookup_def dict_get_str)
  show ?thesis
    using pro_foglio_rows [of py_eval L e ts c foglio shp] l bd_foglio_rows [of py_eval foglio shp]
    by blast
qed

text \<open>
  Claim C7, as stated, fails for \<open>BDgpkg2shape.py\<close>: with a \<open>d_foglio.dbf\<close> that maps
  sheet 348 to \<open>Antrodoco\<close>, the lookup of \<open>"348"\<close> gives \<open>Antrodoco\<close>, and
  \<open>_add_foglio_field\<close> writes \<open>348\<close>.
\<close>

theorem foglio_injection_counterexample:
  "load_domain_mappings dec_lib example_env foglio_tables ''d_foglio.dbf'' ''N1'' ''N2'' False
     = [(KStr ''348'', ''Antrodoco''), (KNum 348, ''Antrodoco'')]
   \<and> foglio_lookup [(KStr ''348'', ''Antrodoco''), (KNum 348, ''Antrodoco'')] ''348'' = ''Antrodoco''
   \<and> map (\<lambda>r. row_get r ''Foglio'')
        (fc_rows (fst (add_foglio_field literal_eval ''348'' (point_file [PInt 2]))))
       = [PStr ''348'']"
proof -
  have t: "foglio_tables (domain_table_path example_env ''d_foglio.dbf'' False) = Some foglio_table"
    by (simp add: foglio_tables_def domain_table_path_def example_env_def path_join_def)
  have f: "find_desc_field ''N2'' foglio_table = Some ''N2''"
    by code_simp
  have c: "''N1'' \<in> set (field_names foglio_table)"
    by code_simp
  have b: "build_code_map dec_lib (table_rows foglio_table ''N1'' ''N2'')
           = [(KStr ''348'', ''Antrodoco''), (KNum 348, ''Antrodoco'')]"
    by code_simp
  have l: "load_domain_mappings dec_lib example_env foglio_tables ''d_foglio.dbf'' ''N1'' ''N2'' False
     = [(KStr ''348'', ''Antrodoco''), (KNum 348, ''Antrodoco'')]"
    by (simp add: load_domain_mappings_def read_domain_def t f c b)
  have k: "foglio_lookup [(KStr ''348'', ''Antrodoco''), (KNum 348, ''Antrodoco'')] ''348'' = ''Antrodoco''"
    by code_simp
  have w: "map (\<lambda>r. row_get r ''Foglio'')
        (fc_rows (fst (add_foglio_field literal_eval ''348'' (point_file [PInt 2]))))
       = [PStr ''348'']"
    by code_simp
  show ?thesis using l k w by simp
qed

theorem foglio_injection_amended_witness:
  "literal_eval (quoted ''Antrodoco'') = Inr (PStr ''Antrodoco'')
   \<and> literal_eval (quoted ''348'') = Inr (PStr ''348'')
   \<and> foglio_lookup (fst (load_domain_mappings_pro dec_lib example_env padded_foglio_tables no_cache
                           ''d_foglio.dbf'' ''N1'' ''N2'' False)) ''348'' = ''Antrodoco''
   \<and> (\<exists>shp' tgt c'.
         add_foglio_field_pro literal_eval dec_lib example_env padded_foglio_tables no_cache ''348''
           (point_file [PInt 2]) = ((shp', None), c')
       \<and> resolve_field shp' ''Foglio'' = Some tgt
       \<and> map (\<lambda>r. row_get r tgt) (fc_rows shp') = [PStr ''Antrodoco''])
   \<and> (\<exists>shp' tgt. add_foglio_field literal_eval ''348'' (point_file [PInt 2]) = (shp', None)
       \<and> resolve_field shp' ''Foglio'' = Some tgt
       \<and> map (\<lambda>r. row_get r tgt) (fc_rows shp') = [PStr ''348''])"
proof -
  have e1: "literal_eval (quoted ''Antrodoco'') = Inr (PStr ''Antrodoco'')"
    by code_simp
  have e2: "literal_eval (quoted ''348'') = Inr (PStr ''348'')"
    by code_simp
  have rd: "read_domain_pro dec_lib example_env padded_foglio_tables ''d_foglio.dbf'' ''N1'' ''N2'' False
            = Some [(KStr ''348'', ''Antrodoco''), (KNum 348, ''Antrodoco'')]"
    by code_simp
  have ld: "fst (load_domain_mappings_pro dec_lib example_env padded_foglio_tables no_cache
                           ''d_foglio.dbf'' ''N1'' ''N2'' False)
            = [(KStr ''348'', ''Antrodoco''), (KNum 348, ''Antrodoco'')]"
    by (simp add: load_domain_mappings_pro_def Let_def no_cache_def rd)
  have k: "foglio_lookup [(KStr ''348'', ''Antrodoco''), (KNum 348, ''Antrodoco'')] ''348'' = ''Antrodoco''"
    by code_simp
  have h1: "literal_eval (quoted (foglio_lookup
        (fst (load_domain_mappings_pro dec_lib example_env padded_foglio_tables no_cache
               ''d_foglio.dbf'' ''N1'' ''N2'' False)) ''348''))
      = Inr (PStr (foglio_lookup
        (fst (load_domain_mappings_pro dec_lib example_env padded_foglio_tables no_cache
               ''d_foglio.dbf'' ''N1'' ''N2'' False)) ''348''))"
    by (simp add: ld k e1)
  have rows: "fc_rows (point_file [PInt 2]) = [[(''FID'', PNone), (''Shape'', PNone), (''Tipo'', PInt 2)]]"
    by (simp add: point_file_def)
  note inst = foglio_injection_amended [of literal_eval dec_lib example_env padded_foglio_tables no_cache
      "''348''" "point_file [PInt 2]" "[]"]
  show ?thesis using e1 e2 h1 ld k rows inst by simp
qed

section \<open>Verification of the merge step\<close>

lemma paths_differ: "dest_path w \<noteq> source_path w"
  by (simp add: dest_path_def source_path_def path_join_def)

lemma append_verified_success:
  assumes "append_op source dest = (dest', None)"
    and "GetCount dest' = GetCount dest + GetCount source"
  shows "append_verified append_op w files dest source
         = ((files(dest_path w \<mapsto> dest'))(source_path w := None), [], True)"
  using assms by (simp add: append_verified_def Let_def)

lemma append_verified_mismatch:
  assumes "append_op source dest = (dest', None)"
    and "GetCount dest' \<noteq> GetCount dest + GetCount source"
  shows "append_verified append_op w files dest source
         = (files(dest_path w \<mapsto> dest'),
            [Warning ''Append operation may have issues'',
             Warning ''Expected features count differs''], True)"
  using assms by (simp add: append_verified_def Let_def)

lemma combine_existing:
  assumes "files (dest_path w) = Some dest" "files (source_path w) = Some source"
    and "append_verified append_op w files dest source = (files', entries, True)"
    and "files' (dest_path w) = Some merged"
  shows "combine_geology_lines_optimized append_op standardize w files
         = (files'(dest_path w \<mapsto> standardize merged), entries)"
  using assms by (simp add: combine_geology_lines_optimized_def)

text \<open>
  Claim C3. Let both files exist and the append return. When the count taken after the
  append equals the destination's count before it plus the source's count, the
  destination holds the appended file (then standardized, with that count whenever the
  standardization keeps every feature) and the source is deleted; when the counts
  differ, the source is kept and the destination stays as the append left it.
  The append of the open-library pipeline makes no check: it concatenates the rows, so
  the count is the sum, and removes the source.
\<close>

theorem append_count_verified:
  assumes d: "files (dest_path w) = Some dest"
    and s: "files (source_path w) = Some source"
    and a: "append_op source dest = (dest', None)"
  shows "(GetCount dest' = GetCount dest + GetCount source \<longrightarrow>
            fst (append_verified append_op w files dest source) (dest_path w) = Some dest'
          \<and> fst (append_verified append_op w files dest source) (source_path w) = None
          \<and> fst (combine_geology_lines_optimized append_op standardize w files) (dest_path w)
              = Some (standardize dest')
          \<and> fst (combine_geology_lines_optimized append_op standardize w files) (source_path w)
              = None
          \<and> (GetCount (standardize dest') = GetCount dest' \<longrightarrow>
               (case fst (combine_geology_lines_optimized append_op standardize w files) (dest_path w) of
                  None \<Rightarrow> False
                | Some merged \<Rightarrow> GetCount merged = GetCount dest + GetCount source)))
       \<and> (GetCount dest' \<noteq> GetCount dest + GetCount source \<longrightarrow>
            fst (combine_geology_lines_optimized append_op standardize w files) (dest_path w)
              = Some (standardize dest')
          \<and> fst (combine_geology_lines_optimized append_op standardize w files) (source_path w)
              = Some source)
       \<and> (case pipeline_append True w files (dest_path w) of
            None \<Rightarrow> False
          | Some merged \<Rightarrow> GetCount merged = GetCount dest + GetCount source)
       \<and> pipeline_append True w files (source_path w) = None"
proof -
  have ok: "fst (append_verified append_op w files dest source) (dest_path w) = Some dest'
          \<and> fst (append_verified append_op w files dest source) (source_path w) = None
          \<and> fst (combine_geology_lines_optimized append_op standardize w files) (dest_path w)
              = Some (standardize dest')
          \<and> fst (combine_geology_lines_optimized append_op standardize w files) (source_path w)
              = None
          \<and> (GetCount (standardize dest') = GetCount dest' \<longrightarrow>
               (case fst (combine_geology_lines_optimized append_op standardize w files) (dest_path w) of
                  None \<Rightarrow> False
                | Some merged \<Rightarrow> GetCount merged = GetCount dest + GetCount source))"
    if c: "GetCount dest' = GetCount dest + GetCount source"
  proof -
    let ?f = "(files(dest_path w \<mapsto> dest'))(source_path w := None)"
    have v: "append_verified append_op w files dest source = (?f, [], True)"
      using append_verified_success [of append_op source dest dest' w files] a c by simp
    have m: "?f (dest_path w) = Some dest'" using paths_differ [of w] by simp
    have "combine_geology_lines_optimized append_op standardize w files
          = (?f(dest_path w \<mapsto> standardize dest'), [])"
      using combine_existing [of files w dest source append_op ?f "[]" dest' standardize] d s v m
      by simp
    then show ?thesis using v c paths_differ [of w] by simp
  qed
  have bad: "fst (combine_geology_lines_optimized append_op standardize w files) (dest_path w)
              = Some (standardize dest')
          \<and> fst (combine_geology_lines_optimized append_op standardize w files) (source_path w)
              = Some source"
    if c: "GetCount dest' \<noteq> GetCount dest + GetCount source"
  proof -
    let ?f = "files(dest_path w \<mapsto> dest')"
    have v: "append_verified append_op w files dest source
         = (?f, [Warning ''Append operation may have issues'',
                 Warning ''Expected features count differs''], True)"
      using append_verified_mismatch [of append_op source dest dest' w files] a c by simp
    have m: "?f (dest_path w) = Some dest'" by simp
    have "combine_geology_lines_optimized append_op standardize w files
          = (?f(dest_path w \<mapsto> standardize dest'),
             [Warning ''Append operation may have issues'',
              Warning ''Expected features count differs''])"
      using combine_existing [of files w dest source append_op ?f _ dest' standardize] d s v m
      by simp
    then show ?thesis using s paths_differ [of w] by simp
  qed
  have p: "pipeline_append True w files
           = (files(dest_path w \<mapsto> concat_frames dest source))(source_path w := None)"
    using d s by (simp add: pipeline_append_def Let_def)
  have p1: "(case pipeline_append True w files (dest_path w) of
            None \<Rightarrow> False
          | Some merged \<Rightarrow> GetCount merged = GetCount dest + GetCount source)"
    using paths_differ [of w] by (simp add: p GetCount_def concat_frames_def)
  have p2: "pipeline_append True w files (source_path w) = None"
    by (simp add: p)
  show ?thesis using ok bad p1 p2 by blast
qed

theorem append_count_verified_witness:
  "scenario_e_files (dest_path ''output'') = Some (line_file 100)
   \<and> scenario_e_files (source_path ''output'') = Some (line_file 25)
   \<and> GetCount (line_file 100) = 100
   \<and> GetCount (line_file 25) = 25
   \<and> GetCount (fst (full_append (line_file 25) (line_file 100))) = 125
   \<and> (case fst (combine_geology_lines_optimized full_append keep_schema ''output'' scenario_e_files)
             (dest_path ''output'') of
        None \<Rightarrow> False
      | Some merged \<Rightarrow> GetCount merged = 125)
   \<and> fst (combine_geology_lines_optimized full_append keep_schema ''output'' scenario_e_files)
        (source_path ''output'') = None
   \<and> fst (combine_geology_lines_optimized lossy_append keep_schema ''output'' scenario_e_files)
        (source_path ''output'') = Some (line_file 25)"
proof -
  have h1: "scenario_e_files (dest_path ''output'') = Some (line_file 100)"
    by (simp add: scenario_e_files_def dest_path_def path_join_def)
  have h2: "scenario_e_files (source_path ''output'') = Some (line_file 25)"
    by (simp add: scenario_e_files_def source_path_def path_join_def)
  have c1: "GetCount (line_file 100) = 100" "GetCount (line_file 25) = 25"
    by (simp_all add: GetCount_def line_file_def)
  define merged where "merged = (line_file 100)\<lparr>fc_rows := fc_rows (line_file 100) @ fc_rows (line_file 25)\<rparr>"
  have h3: "full_append (line_file 25) (line_file 100) = (merged, None)"
    by (simp add: full_append_def merged_def)
  have c2: "GetCount merged = 125"
    by (simp add: merged_def GetCount_def line_file_def)
  define lost where "lost = (line_file 100)\<lparr>fc_rows := fc_rows (line_file 100) @ butlast (fc_rows (line_file 25))\<rparr>"
  have h4: "lossy_append (line_file 25) (line_file 100) = (lost, None)"
    by (simp add: lossy_append_def lost_def)
  have c3: "GetCount lost = 124"
    by (simp add: lost_def GetCount_def line_file_def)
  note good = append_count_verified [of scenario_e_files "''output''" "line_file 100" "line_file 25"
      full_append merged keep_schema]
  note bad = append_count_verified [of scenario_e_files "''output''" "line_file 100" "line_file 25"
      lossy_append lost keep_schema]
  show ?thesis
    using h1 h2 c1 c2 c3 h3 h4 good bad by (simp add: keep_schema_def)
qed

lemma combine_missing_dest:
  assumes "files (dest_path w) = None"
  shows "combine_geology_lines_optimized append_op standardize w files
         = (files, [Warning (''Destination file not found: '' @ dest_path w)])"
  using assms by (simp add: combine_geology_lines_optimized_def)

lemma combine_missing_source:
  assumes "files (dest_path w) = Some dest" "files (source_path w) = None"
  shows "combine_geology_lines_optimized append_op standardize w files
         = (files, [Warning (''Source file not found: '' @ source_path w)])"
  using assms by (simp add: combine_geology_lines_optimized_def)

lemma pipeline_append_missing:
  assumes "files (dest_path w) = None \<or> files (source_path w) = None"
  shows "pipeline_append remove_ok w files = files"
  using assms by (auto simp: pipeline_append_def split: option.splits)

text \<open>
  Claim C10. When the destination or the source file does not exist, the merge returns
  the output directory exactly as it was (nothing appended, deleted or standardized),
  whatever the append and the standardization would do, and logs one warning naming the
  missing file, the destination first. The append of the open-library pipeline also
  leaves the directory as it was.
\<close>

theorem merge_missing_file:
  "files (dest_path w) = None \<or> files (source_path w) = None \<longrightarrow>
     fst (combine_geology_lines_optimized append_op standardize w files) = files
   \<and> snd (combine_geology_lines_optimized append_op standardize w files)
       = [Warning (if files (dest_path w) = None
                   then ''Destination file not found: '' @ dest_path w
                   else ''Source file not found: '' @ source_path w)]
   \<and> pipeline_append remove_ok w files = files"
proof (cases "files (dest_path w)")
  case None
  then show ?thesis
    using combine_missing_dest [of files w append_op standardize]
      pipeline_append_missing [of files w remove_ok]
    by simp
next
  case (Some dest)
  show ?thesis
  proof
    assume "files (dest_path w) = None \<or> files (source_path w) = None"
    then have s: "files (source_path w) = None" using Some by simp
    show "fst (combine_geology_lines_optimized append_op standardize w files) = files
        \<and> snd (combine_geology_lines_optimized append_op standardize w files)
            = [Warning (if files (dest_path w) = None
                        then ''Destination file not found: '' @ dest_path w
                        else ''Source file not found: '' @ source_path w)]
        \<and> pipeline_append remove_ok w files = files"
      using combine_missing_source [of files w dest append_op standardize] Some s
        pipeline_append_missing [of files w remove_ok]
      by simp
  qed
qed

theorem merge_missing_file_witness:
  "only_dest_files (source_path ''output'') = None
   \<and> fst (combine_geology_lines_optimized full_append keep_schema ''output'' only_dest_files)
      = only_dest_files
   \<and> snd (combine_geology_lines_optimized full_append keep_schema ''output'' only_dest_files)
      = [Warning ''Source file not found: output/geologia_linee_pieghe.shp'']
   \<and> only_dest_files (dest_path ''output'') = Some (line_file 100)
   \<and> pipeline_append True ''output'' only_dest_files = only_dest_files"
proof -
  have h: "only_dest_files (source_path ''output'') = None"
    by (simp add: only_dest_files_def source_path_def path_join_def)
  have d: "only_dest_files (dest_path ''output'') = Some (line_file 100)"
    by (simp add: only_dest_files_def dest_path_def path_join_def)
  have p: "source_path ''output'' = ''output/geologia_linee_pieghe.shp''"
    by (simp add: source_path_def path_join_def)
  show ?thesis
    using h d p merge_missing_file [of only_dest_files "''output''" full_append keep_schema True]
    by simp
qed

end
